theory Spec2Isabelle
  imports Main "HOL-Library.Sublist"
begin

section \<open>Strings and paths\<close>

text \<open>
  Python strings are modelled as \<open>string\<close>. The helpers below are the string methods
  and \<open>os.path\<close> functions that \<open>main.py\<close> calls.
\<close>

definition startswith :: "string \<Rightarrow> string \<Rightarrow> bool" where
  "startswith s p = prefix p s"

definition endswith :: "string \<Rightarrow> string \<Rightarrow> bool" where
  "endswith s p = suffix p s"

definition lstrip_slash :: "string \<Rightarrow> string" where
  "lstrip_slash s = dropWhile (\<lambda>c. c = CHR ''/'') s"

definition rstrip_slash :: "string \<Rightarrow> string" where
  \<comment> \<open>\<open>s.rstrip("/")\<close>\<close>
  "rstrip_slash s = rev (lstrip_slash (rev s))"

definition strip_slash :: "string \<Rightarrow> string" where
  \<comment> \<open>\<open>s.strip("/")\<close>\<close>
  "strip_slash s = rstrip_slash (lstrip_slash s)"

definition os_path_join :: "string \<Rightarrow> string \<Rightarrow> string" where
  \<comment> \<open>\<open>posixpath.join\<close> of two components\<close>
  "os_path_join a b =
     (if startswith b ''/'' then b
      else if a = [] \<or> endswith a ''/'' then a @ b
      else a @ ''/'' @ b)"

definition os_path_basename :: "string \<Rightarrow> string" where
  \<comment> \<open>\<open>posixpath.basename\<close>: everything after the last slash\<close>
  "os_path_basename p = rev (takeWhile (\<lambda>c. c \<noteq> CHR ''/'') (rev p))"

definition lower_char :: "char \<Rightarrow> char" where
  "lower_char c =
     (case map_of (zip ''ABCDEFGHIJKLMNOPQRSTUVWXYZ'' ''abcdefghijklmnopqrstuvwxyz'') c of
        Some d \<Rightarrow> d
      | None \<Rightarrow> c)"

definition lower :: "string \<Rightarrow> string" where
  \<comment> \<open>\<open>str.lower\<close> on the ASCII letters; the markers searched for are ASCII\<close>
  "lower s = map lower_char s"

fun contains :: "string \<Rightarrow> string \<Rightarrow> bool" where
  \<comment> \<open>\<open>needle in hay\<close>\<close>
  "contains needle [] = (needle = [])"
| "contains needle (c # cs) = (prefix needle (c # cs) \<or> contains needle cs)"

definition set_add :: "'a \<Rightarrow> 'a list \<Rightarrow> 'a list" where
  \<comment> \<open>\<open>s.add(x)\<close> and the list idiom \<open>if x not in xs: xs.append(x)\<close>\<close>
  "set_add x xs = (if x \<in> set xs then xs else xs @ [x])"


section \<open>The world the program runs in\<close>

text \<open>
  A state file on disk is described by what reading it as UTF-8 text and handing the
  text to \<open>orjson.loads\<close> yields. A JSON object is kept as its array-valued and its
  string-valued fields; a field, when present, has the shape the program itself writes
  (an array of strings, a timestamp string).
\<close>

datatype file_state =
    Unreadable    \<comment> \<open>opening or reading raises \<open>IOError\<close>\<close>
  | Not_utf8      \<comment> \<open>reading raises \<open>UnicodeDecodeError\<close>\<close>
  | Not_json      \<comment> \<open>\<open>orjson.loads\<close> raises \<open>JSONDecodeError\<close>\<close>
  | Json_other    \<comment> \<open>valid JSON that is not an object, such as \<open>[]\<close>\<close>
  | Json_object "(string \<times> string list) list" "(string \<times> string) list"

datatype error = IOError | JSONDecodeError | UnicodeDecodeError | AttributeError

datatype fetch_result =
    Client_error                  \<comment> \<open>\<open>aiohttp.ClientError\<close>, a bad status included\<close>
  | Other_error                   \<comment> \<open>any other exception, the timeout included\<close>
  | Page "string option list"     \<comment> \<open>the \<open>href\<close> of every anchor, in document order\<close>

datatype proc_result =
    Launch_error                  \<comment> \<open>starting or awaiting the subprocess raises\<close>
  | Exited int string string      \<comment> \<open>return code, decoded stdout, decoded stderr\<close>

datatype aria2_report = Download_completed | Already_completed | Unrecognised string

datatype event =
    Makedirs string               \<comment> \<open>\<open>os.makedirs(path, exist_ok=True)\<close>\<close>
  | Get_index string              \<comment> \<open>GET of a directory index page\<close>
  | Attempt string                \<comment> \<open>the dispatcher is entered for this URL (line 67)\<close>
  | Spawn "string list"           \<comment> \<open>the subprocess is started with this command\<close>
  | Report aria2_report           \<comment> \<open>which of the three exit-code-0 branches ran\<close>
  | Get_file string string        \<comment> \<open>streaming GET of a URL into a local file\<close>

text \<open>
  What the model leaves out: console output (every \<open>print\<close> is taken to succeed and
  only the announcements that mark a call are kept as events); interrupts; and
  exceptions raised by calls the program makes outside any \<open>try\<close> block
  (\<open>os.makedirs\<close>, \<open>urlparse\<close>, \<open>urljoin\<close>, the HTML parser), which are taken to return.
\<close>

text \<open>
  Everything outside the program is a field of \<open>env\<close>: the two \<open>urllib.parse\<close>
  functions, the remote server, the download helper, the file system's willingness to
  be written and the clock. The remote tree is unchanged during and between runs, so a
  page is a function of its URL.
\<close>

record env =
  urlparse_scheme :: "string \<Rightarrow> string"
  urljoin :: "string \<Rightarrow> string \<Rightarrow> string"
  index_page :: "string \<Rightarrow> fetch_result"
  aria2c :: "string list \<Rightarrow> proc_result"
  http_get_file :: "string \<Rightarrow> bool"
  writable :: "string \<Rightarrow> bool"
  isoformat :: "nat \<Rightarrow> string"
  aria2c_installed :: bool

text \<open>
  The two sets the crawler shares by reference, and the outside world it changes.
  A Python set is kept as a list without repetitions in insertion order (the order in
  which Python enumerates a set is unspecified and nothing below depends on it).
\<close>

record state =
  visited_urls :: "string list"
  visited_directories :: "string set"
  fs :: "string \<Rightarrow> file_state option"
  dirs :: "string set"
  clock :: nat
  trace :: "event list"

definition log :: "event \<Rightarrow> state \<Rightarrow> state" where
  "log e st = st\<lparr>trace := trace st @ [e]\<rparr>"

definition makedirs :: "string \<Rightarrow> state \<Rightarrow> state" where
  "makedirs path st = log (Makedirs path) (st\<lparr>dirs := insert path (dirs st)\<rparr>)"

definition now :: "env \<Rightarrow> state \<Rightarrow> string \<times> state" where
  \<comment> \<open>\<open>datetime.now().isoformat()\<close>\<close>
  "now env st = (isoformat env (clock st), st\<lparr>clock := Suc (clock st)\<rparr>)"


section \<open>Persistent state store\<close>

definition load_visited_urls :: "state \<Rightarrow> string \<Rightarrow> error + string list" where
  "load_visited_urls st visited_urls_file =
     (case fs st visited_urls_file of
        None \<Rightarrow> Inr []
      | Some Unreadable \<Rightarrow> Inr []
      | Some Not_json \<Rightarrow> Inr []
      | Some Not_utf8 \<Rightarrow> Inl UnicodeDecodeError
      | Some Json_other \<Rightarrow> Inl AttributeError
      | Some (Json_object arrays strings) \<Rightarrow>
          (case map_of arrays ''visited_urls'' of
             None \<Rightarrow> Inr []
           | Some urls \<Rightarrow> Inr (remdups urls)))"

definition save_visited_urls :: "env \<Rightarrow> string \<Rightarrow> state \<Rightarrow> state" where
  "save_visited_urls env visited_urls_file st =
     (let (stamp, st1) = now env st
      in if writable env visited_urls_file
         then st1\<lparr>fs := (fs st1)(visited_urls_file \<mapsto>
                 Json_object [(''visited_urls'', visited_urls st1)] [(''last_updated'', stamp)])\<rparr>
         else st1)"

definition error_entries :: "file_state option \<Rightarrow> string list" where
  \<comment> \<open>lines 124 to 132: the collection \<open>save_error_url\<close> starts from\<close>
  "error_entries f =
     (case f of
        Some (Json_object arrays strings) \<Rightarrow>
          (case map_of arrays ''error_urls'' of None \<Rightarrow> [] | Some urls \<Rightarrow> urls)
      | _ \<Rightarrow> [])"

definition save_error_url :: "env \<Rightarrow> string \<Rightarrow> string \<Rightarrow> state \<Rightarrow> state" where
  "save_error_url env error_url error_urls_file st =
     (let urls = set_add error_url (error_entries (fs st error_urls_file));
          (stamp, st1) = now env st
      in if writable env error_urls_file
         then st1\<lparr>fs := (fs st1)(error_urls_file \<mapsto>
                 Json_object [(''error_urls'', urls)] [(''last_updated'', stamp)])\<rparr>
         else st1)"


section \<open>Transfer dispatcher\<close>

definition download_file_with_aiohttp ::
  "env \<Rightarrow> string \<Rightarrow> string \<Rightarrow> string \<Rightarrow> state \<Rightarrow> bool \<times> state" where
  "download_file_with_aiohttp env file_url local_dir error_urls_file st =
     (let st1 = makedirs local_dir st;
          local_filename = os_path_join local_dir (os_path_basename file_url);
          st2 = log (Get_file file_url local_filename) st1
      in if http_get_file env file_url then (True, st2)
         else (False, save_error_url env file_url error_urls_file st2))"

definition classify_stdout :: "string \<Rightarrow> aria2_report" where
  "classify_stdout stdout_text =
     (if contains ''download completed'' (lower stdout_text) then Download_completed
      else if contains ''already been completed'' (lower stdout_text) then Already_completed
      else Unrecognised stdout_text)"

definition download_file_with_aria2 ::
  "env \<Rightarrow> string \<Rightarrow> string \<Rightarrow> string list \<Rightarrow> string \<Rightarrow> state \<Rightarrow> bool \<times> state" where
  "download_file_with_aria2 env file_url local_dir opts error_urls_file st =
     (let st0 = log (Attempt file_url) st
      in if endswith file_url ''.metalink''
         then download_file_with_aiohttp env file_url local_dir error_urls_file st0
         else
           let command = [''aria2c'', ''-c'', ''--dir'', local_dir] @ opts @ [file_url];
               st1 = log (Spawn command) st0
           in case aria2c env command of
                Exited returncode stdout_text stderr_text \<Rightarrow>
                  if returncode = 0
                  then (True, log (Report (classify_stdout stdout_text)) st1)
                  else (False, save_error_url env file_url error_urls_file st1)
              | Launch_error \<Rightarrow> (False, save_error_url env file_url error_urls_file st1))"


section \<open>Directory crawler\<close>

text \<open>The parameters every call of \<open>sync_mirror\<close> passes on unchanged.\<close>

record cfg =
  base_sync_url :: string
  aria2_options :: "string list"
  visited_urls_file :: string
  error_urls_file :: string

text \<open>What the body of the link loop (lines 200 to 244) decides for one anchor.\<close>

datatype action =
    Discard                        \<comment> \<open>filtered out at lines 202 to 208\<close>
  | Out_of_scope string
  | Self_link
  | Enter_directory string string  \<comment> \<open>recurse: next URL, next local path\<close>
  | Seen_directory string
  | Download string
  | Seen_file string

definition classify_link ::
  "env \<Rightarrow> cfg \<Rightarrow> string \<Rightarrow> string \<Rightarrow> state \<Rightarrow> string option \<Rightarrow> action" where
  "classify_link env cfg current_url local_path st link =
     (case link of
        None \<Rightarrow> Discard
      | Some href \<Rightarrow>
          if href = [] \<or> startswith href ''?'' \<or> startswith href ''../''
             \<or> urlparse_scheme env href \<noteq> []
          then Discard
          else
            let next_url = urljoin env current_url href
            in if \<not> startswith next_url (base_sync_url cfg) then Out_of_scope next_url
               else if next_url = current_url then Self_link
               else if endswith href ''/'' then
                 (if rstrip_slash next_url \<notin> visited_directories st
                  then Enter_directory next_url (os_path_join local_path (strip_slash href))
                  else Seen_directory next_url)
               else
                 (if next_url \<notin> set (visited_urls st) then Download next_url
                  else Seen_file next_url))"

text \<open>Lines 237 to 242: hand a file to the dispatcher; on success mark it and save.\<close>

definition transfer_file :: "env \<Rightarrow> cfg \<Rightarrow> string \<Rightarrow> string \<Rightarrow> state \<Rightarrow> state" where
  "transfer_file env cfg local_path next_url st =
     (let (result, st1) =
            download_file_with_aria2 env next_url local_path (aria2_options cfg)
              (error_urls_file cfg) st
      in if result
         then save_visited_urls env (visited_urls_file cfg)
                (st1\<lparr>visited_urls := set_add next_url (visited_urls st1)\<rparr>)
         else st1)"

text \<open>
  \<open>sync_mirror\<close> calls itself from inside its loop, and nothing in the code bounds the
  depth, so the model carries fuel: one unit per nested call, \<open>None\<close> when it runs out.
\<close>

function (sequential)
  sync_mirror :: "nat \<Rightarrow> env \<Rightarrow> cfg \<Rightarrow> string \<Rightarrow> string \<Rightarrow> state \<Rightarrow> state option"
and links_loop ::
  "nat \<Rightarrow> env \<Rightarrow> cfg \<Rightarrow> string \<Rightarrow> string \<Rightarrow> string option list \<Rightarrow> state \<Rightarrow> state option"
where
  "sync_mirror 0 env cfg current_url local_path st = None"
| "sync_mirror (Suc n) env cfg current_url local_path st =
     (let normalized_url = rstrip_slash current_url
      in if normalized_url \<in> visited_directories st then Some st
         else
           let st1 = st\<lparr>visited_directories := insert normalized_url (visited_directories st)\<rparr>
           in if normalized_url \<in> set (visited_urls st1) then Some st1
              else
                let st2 = log (Get_index current_url) (makedirs local_path st1)
                in case index_page env current_url of
                     Client_error \<Rightarrow> Some st2
                   | Other_error \<Rightarrow> Some st2
                   | Page links \<Rightarrow>
                       if links = [] then Some st2
                       else links_loop n env cfg current_url local_path links st2)"
| "links_loop n env cfg current_url local_path [] st = Some st"
| "links_loop n env cfg current_url local_path (link # links) st =
     (case classify_link env cfg current_url local_path st link of
        Enter_directory next_url next_local_path \<Rightarrow>
          (case sync_mirror n env cfg next_url next_local_path st of
             None \<Rightarrow> None
           | Some st' \<Rightarrow> links_loop n env cfg current_url local_path links st')
      | Download next_url \<Rightarrow>
          links_loop n env cfg current_url local_path links
            (transfer_file env cfg local_path next_url st)
      | _ \<Rightarrow> links_loop n env cfg current_url local_path links st)"
  by pat_completeness auto

termination
  by (relation "measures
       [\<lambda>x. case x of
          Inl (n, env, cfg, current_url, local_path, st) \<Rightarrow> 2 * n
        | Inr (n, env, cfg, current_url, local_path, links, st) \<Rightarrow> 2 * n + 1,
        \<lambda>x. case x of
          Inl (n, env, cfg, current_url, local_path, st) \<Rightarrow> 0
        | Inr (n, env, cfg, current_url, local_path, links, st) \<Rightarrow> length links]")
    auto


section \<open>Run controller\<close>

datatype exit_status =
    Completed          \<comment> \<open>the coroutine returns\<close>
  | Exit nat           \<comment> \<open>\<open>sys.exit\<close> with this status\<close>
  | Uncaught error     \<comment> \<open>an exception leaves \<open>async_main\<close>\<close>

text \<open>
  \<open>load_visited_urls\<close> is called outside the \<open>try\<close> block of \<open>async_main\<close>, so what it
  raises leaves the coroutine. Interrupts and exceptions raised inside library calls
  during the crawl are outside the model, so of the handlers at lines 323 to 335 only
  the \<open>finally\<close> clause is reached.
\<close>

definition target_base_url :: "string \<Rightarrow> string" where
  "target_base_url base_url = (if endswith base_url ''/'' then base_url else base_url @ ''/'')"

definition async_main ::
  "nat \<Rightarrow> env \<Rightarrow> string \<Rightarrow> string \<Rightarrow> string \<Rightarrow> string \<Rightarrow> string list \<Rightarrow> state
     \<Rightarrow> (exit_status \<times> state) option" where
  "async_main fuel env base_url local_download_root visited_file error_file opts st =
     (if \<not> aria2c_installed env then Some (Exit 1, st)
      else
        (case load_visited_urls st visited_file of
           Inl e \<Rightarrow> Some (Uncaught e, st)
         | Inr visited \<Rightarrow>
             (let target = target_base_url base_url;
                  cfg = \<lparr>base_sync_url = target, aria2_options = opts,
                          visited_urls_file = visited_file, error_urls_file = error_file\<rparr>;
                  st0 = st\<lparr>visited_urls := visited, visited_directories := {}\<rparr>
              in (case sync_mirror fuel env cfg target local_download_root st0 of
                    None \<Rightarrow> None
                  | Some st1 \<Rightarrow> Some (Completed, save_visited_urls env visited_file st1)))))"


section \<open>The link filter as the specification words it\<close>

text \<open>
  The specification's filter: empty hrefs, hrefs starting with \<open>?\<close>, hrefs starting with
  \<open>../\<close>, and absolute URLs whose scheme differs from the scheme of the current page.
\<close>

definition spec_link_filter :: "env \<Rightarrow> string \<Rightarrow> string option \<Rightarrow> bool" where
  "spec_link_filter env current_url link =
     (case link of
        None \<Rightarrow> True
      | Some href \<Rightarrow>
          href = [] \<or> startswith href ''?'' \<or> startswith href ''../''
          \<or> (urlparse_scheme env href \<noteq> []
              \<and> urlparse_scheme env href \<noteq> urlparse_scheme env current_url))"


section \<open>A concrete environment\<close>

text \<open>
  For running the model on examples, the two \<open>urllib.parse\<close> functions are given on
  the inputs the examples use. \<open>std_scheme\<close> follows the scheme detection of
  \<open>urlsplit\<close>: the text before the first colon, when it starts with a letter and
  consists of letters, digits, \<open>+\<close>, \<open>-\<close> and \<open>.\<close>. \<open>std_urljoin\<close> follows \<open>urljoin\<close>
  for a base of the form \<open>scheme://host/path\<close> and a reference that is a bare path
  (no scheme, host, parameters, query or fragment).
\<close>

definition ascii_letters :: string where
  "ascii_letters = ''abcdefghijklmnopqrstuvwxyzABCDEFGHIJKLMNOPQRSTUVWXYZ''"

definition scheme_chars :: string where
  "scheme_chars = ascii_letters @ ''0123456789+-.''"

definition std_scheme :: "string \<Rightarrow> string" where
  "std_scheme url =
     (let s = takeWhile (\<lambda>c. c \<noteq> CHR '':'') url
      in if CHR '':'' \<in> set url \<and> s \<noteq> [] \<and> hd s \<in> set ascii_letters
            \<and> list_all (\<lambda>c. c \<in> set scheme_chars) s
         then lower s else [])"

fun split_on :: "char \<Rightarrow> string \<Rightarrow> string list" where
  \<comment> \<open>\<open>s.split(sep)\<close>\<close>
  "split_on sep [] = [[]]"
| "split_on sep (c # cs) =
     (if c = sep then [] # split_on sep cs
      else case split_on sep cs of w # ws \<Rightarrow> (c # w) # ws | [] \<Rightarrow> [[c]])"

fun join_on :: "char \<Rightarrow> string list \<Rightarrow> string" where
  \<comment> \<open>\<open>sep.join(parts)\<close>\<close>
  "join_on sep [] = []"
| "join_on sep [p] = p"
| "join_on sep (p # q # ps) = p @ sep # join_on sep (q # ps)"

definition filter_middle :: "string list \<Rightarrow> string list" where
  \<comment> \<open>\<open>segments[1:-1] = filter(None, segments[1:-1])\<close>\<close>
  "filter_middle segments =
     (case segments of
        [] \<Rightarrow> []
      | [x] \<Rightarrow> [x]
      | x # rest \<Rightarrow> x # filter (\<lambda>s. s \<noteq> []) (butlast rest) @ [last rest])"

fun resolve_dots :: "string list \<Rightarrow> string list \<Rightarrow> string list" where
  "resolve_dots resolved [] = resolved"
| "resolve_dots resolved (seg # segs) =
     (if seg = ''..'' then resolve_dots (butlast resolved) segs
      else if seg = ''.'' then resolve_dots resolved segs
      else resolve_dots (resolved @ [seg]) segs)"

definition std_urljoin :: "string \<Rightarrow> string \<Rightarrow> string" where
  "std_urljoin base url =
     (if base = [] then url
      else if url = [] then base
      else
        let bscheme = takeWhile (\<lambda>c. c \<noteq> CHR '':'') base;
            after = drop (length bscheme + 3) base;
            bnetloc = takeWhile (\<lambda>c. c \<noteq> CHR ''/'') after;
            bpath = dropWhile (\<lambda>c. c \<noteq> CHR ''/'') after;
            base_parts = (let ps = split_on CHR ''/'' bpath
                          in if last ps \<noteq> [] then butlast ps else ps);
            segments = (if startswith url ''/'' then split_on CHR ''/'' url
                        else filter_middle (base_parts @ split_on CHR ''/'' url));
            resolved = resolve_dots [] segments;
            resolved_path = (if last segments = ''.'' \<or> last segments = ''..''
                             then resolved @ [[]] else resolved);
            path = join_on CHR ''/'' resolved_path
        in bscheme @ ''://'' @ bnetloc @ (if path = [] then ''/'' else path))"

definition demo_env :: "(string \<Rightarrow> fetch_result) \<Rightarrow> (string list \<Rightarrow> proc_result) \<Rightarrow> env" where
  "demo_env pages helper =
     \<lparr>urlparse_scheme = std_scheme, urljoin = std_urljoin, index_page = pages,
      aria2c = helper, http_get_file = (\<lambda>u. True), writable = (\<lambda>p. True),
      isoformat = (\<lambda>n. ''2024-01-01T00:00:00''), aria2c_installed = True\<rparr>"

definition demo_cfg :: cfg where
  "demo_cfg =
     \<lparr>base_sync_url = ''http://h/B/'', aria2_options = [''-x'', ''16''],
      visited_urls_file = ''visited_urls.json'', error_urls_file = ''error_urls.json''\<rparr>"

definition fresh_state :: state where
  \<comment> \<open>a first run: nothing visited, no state file, no local directory\<close>
  "fresh_state =
     \<lparr>visited_urls = [], visited_directories = {}, fs = Map.empty, dirs = {},
      clock = 0, trace = []\<rparr>"


section \<open>Notions used to state the properties\<close>

definition second_run ::
  "nat \<Rightarrow> env \<Rightarrow> string \<Rightarrow> string \<Rightarrow> string \<Rightarrow> string \<Rightarrow> string list
     \<Rightarrow> (exit_status \<times> state) option \<Rightarrow> (exit_status \<times> state) option" where
  \<comment> \<open>the program started again in the world an earlier run left behind\<close>
  "second_run fuel env base_url local_download_root visited_file error_file opts r =
     (case r of
        None \<Rightarrow> None
      | Some (status, world) \<Rightarrow>
          async_main fuel env base_url local_download_root visited_file error_file opts world)"

fun attempts :: "event list \<Rightarrow> string list" where
  \<comment> \<open>the URLs handed to the dispatcher, in order\<close>
  "attempts [] = []"
| "attempts (Attempt u # es) = u # attempts es"
| "attempts (e # es) = attempts es"

fun in_scope :: "string \<Rightarrow> event \<Rightarrow> bool" where
  \<comment> \<open>an effect on a remote URL concerns a URL under the base prefix\<close>
  "in_scope base (Get_index u) = startswith u base"
| "in_scope base (Attempt u) = startswith u base"
| "in_scope base (Spawn command) = (command \<noteq> [] \<and> startswith (last command) base)"
| "in_scope base (Get_file u local_filename) = startswith u base"
| "in_scope base (Makedirs path) = True"
| "in_scope base (Report r) = True"

definition grows :: "state \<Rightarrow> state \<Rightarrow> bool" where
  \<comment> \<open>nothing is forgotten between two states\<close>
  "grows st st' =
     (visited_directories st \<subseteq> visited_directories st'
      \<and> set (visited_urls st) \<subseteq> set (visited_urls st')
      \<and> dirs st \<subseteq> dirs st'
      \<and> prefix (trace st) (trace st'))"

definition is_page :: "fetch_result \<Rightarrow> bool" where
  "is_page r = (case r of Page links \<Rightarrow> True | _ \<Rightarrow> False)"

definition pending :: "env \<Rightarrow> state \<Rightarrow> string set" where
  \<comment> \<open>the directory URLs the server answers whose stripped form has not been entered\<close>
  "pending env st =
     {u. is_page (index_page env u) \<and> rstrip_slash u \<notin> visited_directories st}"

definition entered :: "string \<Rightarrow> string \<Rightarrow> state \<Rightarrow> state" where
  \<comment> \<open>the state after lines 167 to 182: marked, directory made, index requested\<close>
  "entered u p st =
     log (Get_index u) (makedirs p
       (st\<lparr>visited_directories := insert (rstrip_slash u) (visited_directories st)\<rparr>))"

definition cyclic_pages :: "string \<Rightarrow> fetch_result" where
  \<comment> \<open>a tree whose pages link to themselves and to their parent\<close>
  "cyclic_pages u =
     (if u = ''http://h/B/'' then Page [Some ''a/'', Some ''./'']
      else if u = ''http://h/B/a/'' then Page [Some ''/B/'', Some ''/B/a/'', Some ''x.iso'']
      else Client_error)"

definition cex_pages :: "string \<Rightarrow> fetch_result" where
  \<comment> \<open>a tree with a file \<open>a\<close> beside the directory \<open>a/\<close> and two spellings of \<open>a/e/\<close>\<close>
  "cex_pages u =
     (if u = ''http://h/B/'' then Page [Some ''a/'', Some ''a'', Some ''/B/a/e//'']
      else if u = ''http://h/B/a/'' then Page [Some ''e/'']
      else if u = ''http://h/B/a/e/'' then Page []
      else if u = ''http://h/B/a/e//'' then Page [Some ''z'']
      else Client_error)"

definition scope_pages :: "string \<Rightarrow> fetch_result" where
  \<comment> \<open>a page with a link that leaves the base prefix\<close>
  "scope_pages u =
     (if u = ''http://h/B/'' then Page [Some ''/C/'', Some ''x.iso''] else Client_error)"

definition replays :: "string set \<Rightarrow> state \<Rightarrow> state \<Rightarrow> bool" where
  \<comment> \<open>a later run, holding the final Visited Set \<open>W\<close>, is where an earlier run was\<close>
  "replays W st1 st2 =
     (visited_directories st2 = visited_directories st1
      \<and> set (visited_urls st2) = W
      \<and> set (visited_urls st1) \<subseteq> W)"

definition dirs_apart :: "env \<Rightarrow> string set \<Rightarrow> bool" where
  \<comment> \<open>no directory URL the server answers has its stripped form in \<open>W\<close>\<close>
  "dirs_apart env W = (\<forall>u. is_page (index_page env u) \<longrightarrow> rstrip_slash u \<notin> W)"

definition cex_world1 :: state where
  \<comment> \<open>the world after a first run over \<open>cex_pages\<close> started in \<open>fresh_state\<close>\<close>
  "cex_world1 =
     \<lparr>visited_urls = [''http://h/B/a''],
      visited_directories = {''http://h/B/a/e'', ''http://h/B/a'', ''http://h/B''},
      fs = [''visited_urls.json'' \<mapsto>
              Json_object [(''visited_urls'', [''http://h/B/a''])]
                [(''last_updated'', ''2024-01-01T00:00:00'')]],
      dirs = {''/m/a/e'', ''/m/a'', ''/m''}, clock = 2,
      trace = [Makedirs ''/m'', Get_index ''http://h/B/'', Makedirs ''/m/a'',
               Get_index ''http://h/B/a/'', Makedirs ''/m/a/e'',
               Get_index ''http://h/B/a/e/'', Attempt ''http://h/B/a'',
               Spawn [''aria2c'', ''-c'', ''--dir'', ''/m'', ''-x'', ''16'', ''http://h/B/a''],
               Report (Unrecognised [])]\<rparr>"

definition cyclic_world1 :: state where
  \<comment> \<open>the world after a first run over \<open>cyclic_pages\<close> started in \<open>fresh_state\<close>\<close>
  "cyclic_world1 =
     \<lparr>visited_urls = [''http://h/B/a/x.iso''],
      visited_directories = {''http://h/B/a'', ''http://h/B''},
      fs = [''visited_urls.json'' \<mapsto>
              Json_object [(''visited_urls'', [''http://h/B/a/x.iso''])]
                [(''last_updated'', ''2024-01-01T00:00:00'')]],
      dirs = {''/m/a'', ''/m''}, clock = 2,
      trace = [Makedirs ''/m'', Get_index ''http://h/B/'', Makedirs ''/m/a'',
               Get_index ''http://h/B/a/'', Attempt ''http://h/B/a/x.iso'',
               Spawn [''aria2c'', ''-c'', ''--dir'', ''/m/a'', ''-x'', ''16'',
                      ''http://h/B/a/x.iso''],
               Report (Unrecognised [])]\<rparr>"


section \<open>The dispatcher\<close>

lemma log_simps [simp]:
  "trace (log e st) = trace st @ [e]"
  "visited_urls (log e st) = visited_urls st"
  "visited_directories (log e st) = visited_directories st"
  "fs (log e st) = fs st"
  "dirs (log e st) = dirs st"
  "clock (log e st) = clock st"
  by (simp_all add: log_def)

lemma makedirs_simps [simp]:
  "trace (makedirs p st) = trace st @ [Makedirs p]"
  "visited_urls (makedirs p st) = visited_urls st"
  "visited_directories (makedirs p st) = visited_directories st"
  "fs (makedirs p st) = fs st"
  "dirs (makedirs p st) = insert p (dirs st)"
  "clock (makedirs p st) = clock st"
  by (simp_all add: makedirs_def)

lemma save_visited_urls_simps [simp]:
  "trace (save_visited_urls env f st) = trace st"
  "visited_urls (save_visited_urls env f st) = visited_urls st"
  "visited_directories (save_visited_urls env f st) = visited_directories st"
  "dirs (save_visited_urls env f st) = dirs st"
  "clock (save_visited_urls env f st) = Suc (clock st)"
  by (simp_all add: save_visited_urls_def now_def)

lemma save_error_url_simps [simp]:
  "trace (save_error_url env u f st) = trace st"
  "visited_urls (save_error_url env u f st) = visited_urls st"
  "visited_directories (save_error_url env u f st) = visited_directories st"
  "dirs (save_error_url env u f st) = dirs st"
  "clock (save_error_url env u f st) = Suc (clock st)"
  by (simp_all add: save_error_url_def now_def Let_def)

lemma aiohttp_frame [simp]:
  "visited_urls (snd (download_file_with_aiohttp env u d f st)) = visited_urls st"
  "visited_directories (snd (download_file_with_aiohttp env u d f st)) = visited_directories st"
  "dirs (snd (download_file_with_aiohttp env u d f st)) = insert d (dirs st)"
  "trace (snd (download_file_with_aiohttp env u d f st)) =
     trace st @ [Makedirs d, Get_file u (os_path_join d (os_path_basename u))]"
  by (simp_all add: download_file_with_aiohttp_def Let_def)

lemma aria2_frame [simp]:
  "visited_urls (snd (download_file_with_aria2 env u d opts f st)) = visited_urls st"
  "visited_directories (snd (download_file_with_aria2 env u d opts f st)) = visited_directories st"
  by (simp_all add: download_file_with_aria2_def Let_def split: proc_result.splits)

lemma aria2_dirs: "dirs st \<subseteq> dirs (snd (download_file_with_aria2 env u d opts f st))"
  by (auto simp add: download_file_with_aria2_def Let_def split: proc_result.splits)

lemma aria2_trace: "prefix (trace st) (trace (snd (download_file_with_aria2 env u d opts f st)))"
  by (auto simp add: download_file_with_aria2_def Let_def prefix_def split: proc_result.splits)




lemma save_error_url_unwritable:
  "\<not> writable env f \<Longrightarrow> fs (save_error_url env u f st) = fs st"
  by (simp add: save_error_url_def now_def Let_def)




lemmas demo_simps = demo_env_def demo_cfg_def fresh_state_def
lemmas scheme_simps = std_scheme_def ascii_letters_def scheme_chars_def lower_def lower_char_def
lemmas urljoin_simps = std_urljoin_def Let_def startswith_def filter_middle_def

lemma demo_env_sel [simp]:
  "urlparse_scheme (demo_env pages helper) = std_scheme"
  "urljoin (demo_env pages helper) = std_urljoin"
  "index_page (demo_env pages helper) = pages"
  "aria2c (demo_env pages helper) = helper"
  "http_get_file (demo_env pages helper) u"
  "writable (demo_env pages helper) p"
  "aria2c_installed (demo_env pages helper)"
  "isoformat (demo_env pages helper) n = ''2024-01-01T00:00:00''"
  by (simp_all add: demo_env_def)



section \<open>The state store\<close>

text \<open>
  Claim C9 fails on the code: \<open>load_visited_urls\<close> catches \<open>JSONDecodeError\<close> and
  \<open>IOError\<close> only. A visited-log file holding the valid JSON text \<open>[]\<close> makes
  \<open>data.get\<close> raise \<open>AttributeError\<close>, a file that is not valid UTF-8 makes the read
  raise \<open>UnicodeDecodeError\<close>, and either exception leaves \<open>async_main\<close>.
\<close>
theorem load_visited_urls_raises:
  "load_visited_urls (fresh_state\<lparr>fs := [''visited_urls.json'' \<mapsto> Json_other]\<rparr>)
      ''visited_urls.json'' = Inl AttributeError
   \<and> load_visited_urls (fresh_state\<lparr>fs := [''visited_urls.json'' \<mapsto> Not_utf8]\<rparr>)
      ''visited_urls.json'' = Inl UnicodeDecodeError
   \<and> async_main 1 (demo_env (\<lambda>u. Client_error) (\<lambda>c. Launch_error)) ''http://h/B/'' ''/m''
        ''visited_urls.json'' ''error_urls.json'' []
        (fresh_state\<lparr>fs := [''visited_urls.json'' \<mapsto> Json_other]\<rparr>) =
       Some (Uncaught AttributeError, fresh_state\<lparr>fs := [''visited_urls.json'' \<mapsto> Json_other]\<rparr>)"
  by (simp add: load_visited_urls_def async_main_def demo_simps)

lemma load_visited_urls_tolerated:
  "fs st f = None \<or> fs st f = Some Unreadable \<or> fs st f = Some Not_json
   \<Longrightarrow> load_visited_urls st f = Inr []"
  by (auto simp add: load_visited_urls_def)






section \<open>The link loop, one link at a time\<close>

lemma std_scheme_examples:
  "std_scheme ''http://h/B/a/'' = ''http''"
  "std_scheme ''http://h/B/'' = ''http''"
  "std_scheme ''a/'' = []"
  "std_scheme ''a'' = []"
  "std_scheme ''e/'' = []"
  "std_scheme ''z'' = []"
  "std_scheme ''x.iso'' = []"
  "std_scheme ''./'' = []"
  "std_scheme ''/B/'' = []"
  "std_scheme ''/B/a/e//'' = []"
  by (simp_all add: scheme_simps)

lemma std_urljoin_examples:
  "std_urljoin ''http://h/B/'' ''a/'' = ''http://h/B/a/''"
  "std_urljoin ''http://h/B/'' ''a'' = ''http://h/B/a''"
  "std_urljoin ''http://h/B/'' ''x.iso'' = ''http://h/B/x.iso''"
  "std_urljoin ''http://h/B/'' ''/B/a/e//'' = ''http://h/B/a/e//''"
  "std_urljoin ''http://h/B/a/'' ''e/'' = ''http://h/B/a/e/''"
  "std_urljoin ''http://h/B/a/e//'' ''z'' = ''http://h/B/a/e/z''"
  "std_urljoin ''http://h/B/a/'' ''./'' = ''http://h/B/a/''"
  "std_urljoin ''http://h/B/a/'' ''/B/'' = ''http://h/B/''"
  by (simp_all add: urljoin_simps)

text \<open>
  Claim C5 as stated fails: an absolute URL with the scheme of the current page is
  discarded by the code, where the specification's filter lets it through.
\<close>
theorem link_filter_counterexample:
  "\<not> (classify_link (demo_env (\<lambda>u. Client_error) (\<lambda>c. Launch_error)) demo_cfg
          ''http://h/B/'' ''/m'' fresh_state (Some ''http://h/B/a/'') = Discard
        \<longleftrightarrow> spec_link_filter (demo_env (\<lambda>u. Client_error) (\<lambda>c. Launch_error))
              ''http://h/B/'' (Some ''http://h/B/a/''))"
  by (simp add: classify_link_def spec_link_filter_def std_scheme_examples startswith_def)

text \<open>
  Claim C5 (as amended). The filter discards a link exactly when it has no href, an
  empty href, an href starting with \<open>?\<close> or with \<open>../\<close>, or an href in which
  \<open>urlparse\<close> finds any scheme at all; a discarded link has no effect; every other
  href is resolved against the current URL and routed on the resolved URL.
\<close>
theorem link_filter_discards:
  "(classify_link env cfg current_url local_path st link = Discard
      \<longleftrightarrow> (link = None \<or> link = Some []
           \<or> (\<exists>href. link = Some href
                \<and> (startswith href ''?'' \<or> startswith href ''../''
                     \<or> urlparse_scheme env href \<noteq> []))))
   \<and> (classify_link env cfg current_url local_path st link = Discard
        \<longrightarrow> links_loop n env cfg current_url local_path (link # links) st =
            links_loop n env cfg current_url local_path links st)
   \<and> (\<forall>href. link = Some href
         \<and> classify_link env cfg current_url local_path st link \<noteq> Discard
        \<longrightarrow> (case classify_link env cfg current_url local_path st link of
               Discard \<Rightarrow> False
             | Out_of_scope u \<Rightarrow> u = urljoin env current_url href
             | Self_link \<Rightarrow> current_url = urljoin env current_url href
             | Enter_directory u p \<Rightarrow> u = urljoin env current_url href
             | Seen_directory u \<Rightarrow> u = urljoin env current_url href
             | Download u \<Rightarrow> u = urljoin env current_url href
             | Seen_file u \<Rightarrow> u = urljoin env current_url href))"
proof (intro conjI)
  show "classify_link env cfg current_url local_path st link = Discard
      \<longleftrightarrow> (link = None \<or> link = Some []
           \<or> (\<exists>href. link = Some href
                \<and> (startswith href ''?'' \<or> startswith href ''../''
                     \<or> urlparse_scheme env href \<noteq> [])))"
    by (cases link) (auto simp add: classify_link_def Let_def)
next
  show "classify_link env cfg current_url local_path st link = Discard
        \<longrightarrow> links_loop n env cfg current_url local_path (link # links) st =
            links_loop n env cfg current_url local_path links st"
    by simp
next
  show "\<forall>href. link = Some href
         \<and> classify_link env cfg current_url local_path st link \<noteq> Discard
        \<longrightarrow> (case classify_link env cfg current_url local_path st link of
               Discard \<Rightarrow> False
             | Out_of_scope u \<Rightarrow> u = urljoin env current_url href
             | Self_link \<Rightarrow> current_url = urljoin env current_url href
             | Enter_directory u p \<Rightarrow> u = urljoin env current_url href
             | Seen_directory u \<Rightarrow> u = urljoin env current_url href
             | Download u \<Rightarrow> u = urljoin env current_url href
             | Seen_file u \<Rightarrow> u = urljoin env current_url href)"
    by (auto simp add: classify_link_def Let_def)
qed

lemma classify_demo_dir:
  "classify_link (demo_env pages helper) demo_cfg ''http://h/B/'' ''/m'' fresh_state (Some ''a/'')
     = Enter_directory ''http://h/B/a/'' ''/m/a''"
  by (simp add: classify_link_def std_scheme_examples std_urljoin_examples)
     (simp add: startswith_def endswith_def suffix_to_prefix demo_cfg_def fresh_state_def
        rstrip_slash_def lstrip_slash_def strip_slash_def os_path_join_def)

theorem link_filter_discards_witness:
  "classify_link (demo_env (\<lambda>u. Client_error) (\<lambda>c. Launch_error)) demo_cfg
      ''http://h/B/'' ''/m'' fresh_state (Some ''?C=N;O=D'') = Discard
   \<and> links_loop 1 (demo_env (\<lambda>u. Client_error) (\<lambda>c. Launch_error)) demo_cfg
        ''http://h/B/'' ''/m'' [Some ''?C=N;O=D''] fresh_state = Some fresh_state
   \<and> classify_link (demo_env (\<lambda>u. Client_error) (\<lambda>c. Launch_error)) demo_cfg
      ''http://h/B/'' ''/m'' fresh_state (Some ''a/'') = Enter_directory ''http://h/B/a/'' ''/m/a''
   \<and> ''http://h/B/a/'' = urljoin (demo_env (\<lambda>u. Client_error) (\<lambda>c. Launch_error))
         ''http://h/B/'' ''a/''"
proof -
  let ?E = "demo_env (\<lambda>u. Client_error) (\<lambda>c. Launch_error)"
  have s: "startswith ''?C=N;O=D'' ''?''"
    by (simp add: startswith_def)
  note t1 = link_filter_discards [of ?E demo_cfg "''http://h/B/''" "''/m''" fresh_state
      "Some ''?C=N;O=D''" 1 "[]"]
  have d: "classify_link ?E demo_cfg ''http://h/B/'' ''/m'' fresh_state (Some ''?C=N;O=D'') = Discard"
    using t1 s by blast
  have l: "links_loop 1 ?E demo_cfg ''http://h/B/'' ''/m'' [Some ''?C=N;O=D''] fresh_state
             = Some fresh_state"
    using t1 d by simp
  note t2 = link_filter_discards [of ?E demo_cfg "''http://h/B/''" "''/m''" fresh_state
      "Some ''a/''" 1 "[]"]
  have c: "classify_link ?E demo_cfg ''http://h/B/'' ''/m'' fresh_state (Some ''a/'')
             = Enter_directory ''http://h/B/a/'' ''/m/a''"
    by (rule classify_demo_dir)
  have u: "''http://h/B/a/'' = urljoin ?E ''http://h/B/'' ''a/''"
    using t2 c by simp
  show ?thesis
    using d l c u by blast
qed

text \<open>
  Claim C4. For a file link that is not yet in the Visited Set: when the dispatcher
  reports success, the next link is processed in the state where the URL has been
  added and \<open>save_visited_urls\<close> has run on the whole set (the file then holds exactly
  that set when it can be written); when the dispatcher reports failure, the next link
  is processed with the Visited Set unchanged, so the URL is not in it.
\<close>
theorem file_link_success_persisted:
  assumes "classify_link env cfg current_url local_path st link = Download next_url"
  shows "let r = download_file_with_aria2 env next_url local_path (aria2_options cfg)
                   (error_urls_file cfg) st;
             st_ok = save_visited_urls env (visited_urls_file cfg)
                       ((snd r)\<lparr>visited_urls := set_add next_url (visited_urls (snd r))\<rparr>)
         in next_url \<notin> set (visited_urls st)
            \<and> (fst r \<longrightarrow>
                  links_loop n env cfg current_url local_path (link # links) st =
                    links_loop n env cfg current_url local_path links st_ok
                  \<and> set (visited_urls st_ok) = insert next_url (set (visited_urls st))
                  \<and> (writable env (visited_urls_file cfg) \<longrightarrow>
                        fs st_ok (visited_urls_file cfg) =
                          Some (Json_object [(''visited_urls'', visited_urls st_ok)]
                                  [(''last_updated'', isoformat env (clock (snd r)))])))
            \<and> (\<not> fst r \<longrightarrow>
                  links_loop n env cfg current_url local_path (link # links) st =
                    links_loop n env cfg current_url local_path links (snd r)
                  \<and> visited_urls (snd r) = visited_urls st
                  \<and> next_url \<notin> set (visited_urls (snd r)))"
proof -
  have nv: "next_url \<notin> set (visited_urls st)"
    using assms
    by (auto simp add: classify_link_def Let_def split: option.splits if_splits)
  obtain b st1 where r: "download_file_with_aria2 env next_url local_path (aria2_options cfg)
                   (error_urls_file cfg) st = (b, st1)"
    by (cases "download_file_with_aria2 env next_url local_path (aria2_options cfg)
                   (error_urls_file cfg) st")
  have v: "visited_urls st1 = visited_urls st"
    using aria2_frame(1) [of env next_url local_path "aria2_options cfg" "error_urls_file cfg" st]
    by (simp add: r)
  have step: "links_loop n env cfg current_url local_path (link # links) st =
      links_loop n env cfg current_url local_path links
        (if b then save_visited_urls env (visited_urls_file cfg)
                    (st1\<lparr>visited_urls := set_add next_url (visited_urls st1)\<rparr>)
         else st1)"
    using assms by (simp add: transfer_file_def r)
  have saved: "writable env (visited_urls_file cfg) \<Longrightarrow>
      fs (save_visited_urls env (visited_urls_file cfg)
            (st1\<lparr>visited_urls := set_add next_url (visited_urls st1)\<rparr>)) (visited_urls_file cfg) =
        Some (Json_object [(''visited_urls'', set_add next_url (visited_urls st1))]
                [(''last_updated'', isoformat env (clock st1))])"
    by (simp add: save_visited_urls_def now_def)
  show ?thesis
    using nv step saved
    by (simp add: Let_def r v set_add_def)
qed


section \<open>What a crawl never undoes\<close>

lemma grows_refl [simp]: "grows st st"
  by (simp add: grows_def)

lemma grows_trans: "grows a b \<Longrightarrow> grows b c \<Longrightarrow> grows a c"
  unfolding grows_def by (meson prefix_order.trans subset_trans)

lemma transfer_file_frame [simp]:
  "visited_directories (transfer_file env cfg p u st) = visited_directories st"
  by (simp add: transfer_file_def Let_def split: prod.splits)
     (metis aria2_frame(2) snd_conv)

lemma transfer_file_visited:
  "set (visited_urls (transfer_file env cfg p u st)) \<subseteq> insert u (set (visited_urls st))"
  "set (visited_urls st) \<subseteq> set (visited_urls (transfer_file env cfg p u st))"
proof -
  obtain b st1 where r: "download_file_with_aria2 env u p (aria2_options cfg)
      (error_urls_file cfg) st = (b, st1)"
    by (cases "download_file_with_aria2 env u p (aria2_options cfg) (error_urls_file cfg) st")
  have v: "visited_urls st1 = visited_urls st"
    using aria2_frame(1) [of env u p "aria2_options cfg" "error_urls_file cfg" st]
    by (simp add: r)
  show "set (visited_urls (transfer_file env cfg p u st)) \<subseteq> insert u (set (visited_urls st))"
    by (auto simp add: transfer_file_def r v set_add_def)
  show "set (visited_urls st) \<subseteq> set (visited_urls (transfer_file env cfg p u st))"
    by (auto simp add: transfer_file_def r v set_add_def)
qed

lemma grows_transfer_file: "grows st (transfer_file env cfg p u st)"
proof -
  obtain b st1 where r: "download_file_with_aria2 env u p (aria2_options cfg)
      (error_urls_file cfg) st = (b, st1)"
    by (cases "download_file_with_aria2 env u p (aria2_options cfg) (error_urls_file cfg) st")
  have d: "dirs st \<subseteq> dirs st1"
    using aria2_dirs [of st env u p "aria2_options cfg" "error_urls_file cfg"] by (simp add: r)
  have t: "prefix (trace st) (trace st1)"
    using aria2_trace [of st env u p "aria2_options cfg" "error_urls_file cfg"] by (simp add: r)
  have "dirs st \<subseteq> dirs (transfer_file env cfg p u st)"
    using d by (simp add: transfer_file_def r)
  moreover have "prefix (trace st) (trace (transfer_file env cfg p u st))"
    using t by (simp add: transfer_file_def r)
  ultimately show ?thesis
    using transfer_file_visited(2) [of st env cfg p u] by (simp add: grows_def)
qed

lemma links_loop_enter:
  "classify_link env cfg u p st link = Enter_directory u' p' \<Longrightarrow>
   links_loop n env cfg u p (link # links) st =
     (case sync_mirror n env cfg u' p' st of
        None \<Rightarrow> None
      | Some st' \<Rightarrow> links_loop n env cfg u p links st')"
  by simp

lemma links_loop_download:
  "classify_link env cfg u p st link = Download u' \<Longrightarrow>
   links_loop n env cfg u p (link # links) st =
     links_loop n env cfg u p links (transfer_file env cfg p u' st)"
  by simp

lemma links_loop_skip:
  "(\<forall>u' p'. classify_link env cfg u p st link \<noteq> Enter_directory u' p') \<Longrightarrow>
   (\<forall>u'. classify_link env cfg u p st link \<noteq> Download u') \<Longrightarrow>
   links_loop n env cfg u p (link # links) st = links_loop n env cfg u p links st"
  by (cases "classify_link env cfg u p st link") simp_all

lemma sync_mirror_Suc:
  "sync_mirror (Suc n) env cfg u p st =
     (if rstrip_slash u \<in> visited_directories st then Some st
      else if rstrip_slash u \<in> set (visited_urls st)
      then Some (st\<lparr>visited_directories := insert (rstrip_slash u) (visited_directories st)\<rparr>)
      else case index_page env u of
             Page links \<Rightarrow>
               if links = [] then Some (entered u p st)
               else links_loop n env cfg u p links (entered u p st)
           | _ \<Rightarrow> Some (entered u p st))"
  by (simp add: Let_def entered_def split: fetch_result.splits)

declare sync_mirror.simps(2) [simp del]

lemma grows_entered: "grows st (entered u p st)"
  by (auto simp add: grows_def entered_def prefix_def)

lemma grows_vd: "grows st (st\<lparr>visited_directories := insert x (visited_directories st)\<rparr>)"
  by (auto simp add: grows_def)

lemma crawl_grows:
  "\<forall>st'. sync_mirror n env cfg u p st = Some st' \<longrightarrow> grows st st'"
  "\<forall>st'. links_loop n env cfg u p links st = Some st' \<longrightarrow> grows st st'"
proof (induction n env cfg u p st and n env cfg u p links st rule: sync_mirror_links_loop.induct)
  case (1 env cfg current_url local_path st)
  then show ?case by simp
next
  case (2 n env cfg current_url local_path st)
  show ?case
  proof (intro allI impI)
    fix st'
    assume r: "sync_mirror (Suc n) env cfg current_url local_path st = Some st'"
    show "grows st st'"
    proof (cases "rstrip_slash current_url \<in> visited_directories st")
      case True
      with r show ?thesis by (simp add: sync_mirror_Suc)
    next
      case nv: False
      show ?thesis
      proof (cases "rstrip_slash current_url \<in> set (visited_urls st)")
        case True
        with r nv show ?thesis by (auto simp add: sync_mirror_Suc grows_vd)
      next
        case nu: False
        show ?thesis
        proof (cases "index_page env current_url")
          case Client_error
          with r nv nu show ?thesis by (auto simp add: sync_mirror_Suc grows_entered)
        next
          case Other_error
          with r nv nu show ?thesis by (auto simp add: sync_mirror_Suc grows_entered)
        next
          case (Page links)
          show ?thesis
          proof (cases "links = []")
            case True
            with r nv nu Page show ?thesis by (auto simp add: sync_mirror_Suc grows_entered)
          next
            case False
            with r nv nu Page
            have l: "links_loop n env cfg current_url local_path links
                       (entered current_url local_path st) = Some st'"
              by (simp add: sync_mirror_Suc)
            have "grows (entered current_url local_path st) st'"
              using "2.IH" [OF refl nv refl _ refl Page False] nu l
              by (simp add: entered_def)
            then show ?thesis
              using grows_entered grows_trans by blast
          qed
        qed
      qed
    qed
  qed
next
  case (3 n env cfg current_url local_path st)
  then show ?case by simp
next
  case (4 n env cfg current_url local_path link links st)
  show ?case
  proof (intro allI impI)
    fix st'
    assume r: "links_loop n env cfg current_url local_path (link # links) st = Some st'"
    show "grows st st'"
    proof (cases "classify_link env cfg current_url local_path st link")
      case Discard
      with r "4.IH"(1) show ?thesis by simp
    next
      case (Out_of_scope x2)
      with r "4.IH"(2) show ?thesis by simp
    next
      case Self_link
      with r "4.IH"(3) show ?thesis by simp
    next
      case (Enter_directory u' p')
      with r obtain st1 where s: "sync_mirror n env cfg u' p' st = Some st1"
        and l: "links_loop n env cfg current_url local_path links st1 = Some st'"
        by (auto split: option.splits)
      have "grows st st1" using "4.IH"(4) [OF Enter_directory] s by simp
      moreover have "grows st1 st'" using "4.IH"(5) [OF Enter_directory s] l by simp
      ultimately show ?thesis by (rule grows_trans)
    next
      case (Seen_directory x5)
      with r "4.IH"(6) show ?thesis by simp
    next
      case (Download u')
      with r have l: "links_loop n env cfg current_url local_path links
          (transfer_file env cfg local_path u' st) = Some st'"
        by simp
      have "grows (transfer_file env cfg local_path u' st) st'"
        using "4.IH"(7) [OF Download] l by simp
      then show ?thesis
        using grows_transfer_file grows_trans by blast
    next
      case (Seen_file x7)
      with r "4.IH"(8) show ?thesis by simp
    qed
  qed
qed


section \<open>Termination\<close>

lemma pending_mono: "grows st st' \<Longrightarrow> pending env st' \<subseteq> pending env st"
  by (auto simp add: grows_def pending_def)

lemma finite_pending:
  "finite {u. is_page (index_page env u)} \<Longrightarrow> finite (pending env st)"
  by (rule finite_subset [of _ "{u. is_page (index_page env u)}"]) (auto simp add: pending_def)

lemma card_pending_mono:
  "finite {u. is_page (index_page env u)} \<Longrightarrow> grows st st' \<Longrightarrow>
   card (pending env st') \<le> card (pending env st)"
  by (simp add: card_mono finite_pending pending_mono)

lemma card_pending_entered:
  assumes "finite {u. is_page (index_page env u)}"
    and "is_page (index_page env u)"
    and "rstrip_slash u \<notin> visited_directories st"
  shows "card (pending env (entered u p st)) < card (pending env st)"
proof -
  have "u \<in> pending env st"
    using assms(2,3) by (simp add: pending_def)
  moreover have "u \<notin> pending env (entered u p st)"
    by (simp add: pending_def entered_def)
  moreover have "pending env (entered u p st) \<subseteq> pending env st"
    by (simp add: pending_mono grows_entered)
  ultimately have "pending env (entered u p st) \<subset> pending env st"
    by blast
  then show ?thesis
    by (simp add: psubset_card_mono finite_pending assms(1))
qed

lemma loop_total:
  assumes fin: "finite {u. is_page (index_page env u)}"
    and sync: "\<And>st u p. card (pending env st) < n \<Longrightarrow>
                 \<exists>st'. sync_mirror n env cfg u p st = Some st'"
  shows "card (pending env st) < n \<Longrightarrow> \<exists>st'. links_loop n env cfg u p links st = Some st'"
proof (induction links arbitrary: st)
  case Nil
  then show ?case by simp
next
  case (Cons link links)
  show ?case
  proof (cases "classify_link env cfg u p st link")
    case (Enter_directory u' p')
    obtain st1 where s: "sync_mirror n env cfg u' p' st = Some st1"
      using sync [OF Cons.prems] by blast
    have "grows st st1"
      using crawl_grows(1) s by blast
    then have "card (pending env st1) < n"
      using card_pending_mono [OF fin] Cons.prems le_less_trans by blast
    then show ?thesis
      using Cons.IH Enter_directory s by simp
  next
    case (Download u')
    have "card (pending env (transfer_file env cfg p u' st)) < n"
      using card_pending_mono [OF fin grows_transfer_file] Cons.prems le_less_trans by blast
    then show ?thesis
      using Cons.IH Download by simp
  qed (use Cons in simp_all)
qed

lemma sync_total:
  assumes fin: "finite {u. is_page (index_page env u)}"
  shows "card (pending env st) < n \<Longrightarrow> \<exists>st'. sync_mirror n env cfg u p st = Some st'"
proof (induction n arbitrary: st u p)
  case 0
  then show ?case by simp
next
  case (Suc n)
  show ?case
  proof (cases "index_page env u")
    case (Page links)
    show ?thesis
    proof (cases "rstrip_slash u \<notin> visited_directories st \<and> links \<noteq> []")
      case True
      have "card (pending env (entered u p st)) < card (pending env st)"
        using card_pending_entered [OF fin] Page True by (simp add: is_page_def)
      then have "card (pending env (entered u p st)) < n"
        using Suc.prems by linarith
      then obtain st' where
        "links_loop n env cfg u p links (entered u p st) = Some st'"
        using loop_total [OF fin Suc.IH] by blast
      then show ?thesis
        by (simp add: sync_mirror_Suc Page)
    next
      case False
      then show ?thesis
        by (auto simp add: sync_mirror_Suc Page)
    qed
  qed (simp_all add: sync_mirror_Suc)
qed

lemma sync_mirror_marks:
  "sync_mirror n env cfg u p st = Some st' \<Longrightarrow> rstrip_slash u \<in> visited_directories st'"
proof (cases n)
  case 0
  assume "sync_mirror n env cfg u p st = Some st'"
  with 0 show ?thesis by simp
next
  case (Suc m)
  assume r: "sync_mirror n env cfg u p st = Some st'"
  show ?thesis
  proof (cases "rstrip_slash u \<in> visited_directories st")
    case True
    with r Suc show ?thesis by (simp add: sync_mirror_Suc)
  next
    case nv: False
    show ?thesis
    proof (cases "rstrip_slash u \<in> set (visited_urls st)")
      case True
      with r Suc nv show ?thesis by (auto simp add: sync_mirror_Suc)
    next
      case False
      have e: "rstrip_slash u \<in> visited_directories (entered u p st)"
        by (simp add: entered_def)
      have "grows (entered u p st) st'"
        using r Suc nv False crawl_grows(2) [of m env cfg u p _ "entered u p st"]
        by (auto simp add: sync_mirror_Suc split: fetch_result.splits if_splits)
      with e show ?thesis
        by (auto simp add: grows_def)
    qed
  qed
qed

text \<open>
  Claim C2. When the server answers finitely many directory URLs, the crawl returns
  as soon as the fuel (the allowed nesting depth) exceeds the number of those URLs
  whose stripped form is not yet in the Visited-Directories Set, whatever the pages
  link to; the stripped URL of the directory is in the set when the call returns; a
  directory whose stripped URL is already there is left at once, unchanged; and the
  bound is at most the number of distinct directory URLs.
\<close>
theorem crawl_terminates:
  assumes "finite {u. is_page (index_page env u)}"
  shows "(\<forall>n. card (pending env st) < n \<longrightarrow>
            (\<exists>st'. sync_mirror n env cfg current_url local_path st = Some st'
                  \<and> rstrip_slash current_url \<in> visited_directories st'))
         \<and> (\<forall>n. rstrip_slash current_url \<in> visited_directories st \<longrightarrow>
               sync_mirror (Suc n) env cfg current_url local_path st = Some st)
         \<and> card (pending env st) \<le> card {u. is_page (index_page env u)}"
proof (intro conjI allI impI)
  fix n
  assume "card (pending env st) < n"
  then obtain st' where s: "sync_mirror n env cfg current_url local_path st = Some st'"
    using sync_total [OF assms] by blast
  then show "\<exists>st'. sync_mirror n env cfg current_url local_path st = Some st'
                  \<and> rstrip_slash current_url \<in> visited_directories st'"
    using sync_mirror_marks by blast
next
  fix n
  assume "rstrip_slash current_url \<in> visited_directories st"
  then show "sync_mirror (Suc n) env cfg current_url local_path st = Some st"
    by (simp add: sync_mirror_Suc)
next
  show "card (pending env st) \<le> card {u. is_page (index_page env u)}"
    by (rule card_mono [OF assms]) (auto simp add: pending_def)
qed


section \<open>Runs on concrete trees\<close>

lemmas str_simps = startswith_def endswith_def suffix_to_prefix rstrip_slash_def lstrip_slash_def
  strip_slash_def os_path_join_def os_path_basename_def

lemmas run_simps = sync_mirror_Suc classify_link_def transfer_file_def
  download_file_with_aria2_def save_visited_urls_def now_def entered_def
  log_def makedirs_def set_add_def Let_def classify_stdout_def lower_def lower_char_def

theorem file_link_success_persisted_witness:
  "classify_link (demo_env (\<lambda>u. Client_error) (\<lambda>c. Exited 0 [] [])) demo_cfg
      ''http://h/B/'' ''/m'' fresh_state (Some ''x.iso'') = Download ''http://h/B/x.iso''
   \<and> links_loop 1 (demo_env (\<lambda>u. Client_error) (\<lambda>c. Exited 0 [] [])) demo_cfg
        ''http://h/B/'' ''/m'' [Some ''x.iso''] fresh_state =
       Some \<lparr>visited_urls = [''http://h/B/x.iso''], visited_directories = {},
             fs = [''visited_urls.json'' \<mapsto>
                     Json_object [(''visited_urls'', [''http://h/B/x.iso''])]
                       [(''last_updated'', ''2024-01-01T00:00:00'')]],
             dirs = {}, clock = 1,
             trace = [Attempt ''http://h/B/x.iso'',
                      Spawn [''aria2c'', ''-c'', ''--dir'', ''/m'', ''-x'', ''16'',
                             ''http://h/B/x.iso''],
                      Report (Unrecognised [])]\<rparr>
   \<and> classify_link (demo_env (\<lambda>u. Client_error) (\<lambda>c. Exited 1 [] [])) demo_cfg
      ''http://h/B/'' ''/m'' fresh_state (Some ''x.iso'') = Download ''http://h/B/x.iso''
   \<and> map_option visited_urls
        (links_loop 1 (demo_env (\<lambda>u. Client_error) (\<lambda>c. Exited 1 [] [])) demo_cfg
           ''http://h/B/'' ''/m'' [Some ''x.iso''] fresh_state) = Some []"
proof -
  let ?ok = "demo_env (\<lambda>u. Client_error) (\<lambda>c. Exited 0 [] [])"
  let ?bad = "demo_env (\<lambda>u. Client_error) (\<lambda>c. Exited 1 [] [])"
  have c: "\<And>pages helper. classify_link (demo_env pages helper) demo_cfg
      ''http://h/B/'' ''/m'' fresh_state (Some ''x.iso'') = Download ''http://h/B/x.iso''"
    by (simp add: classify_link_def std_scheme_examples std_urljoin_examples)
       (simp add: str_simps demo_cfg_def fresh_state_def)
  have ok: "download_file_with_aria2 ?ok ''http://h/B/x.iso'' ''/m'' (aria2_options demo_cfg)
      (error_urls_file demo_cfg) fresh_state =
      (True, fresh_state\<lparr>trace := [Attempt ''http://h/B/x.iso'',
                      Spawn [''aria2c'', ''-c'', ''--dir'', ''/m'', ''-x'', ''16'',
                             ''http://h/B/x.iso''],
                      Report (Unrecognised [])]\<rparr>)"
    by (simp add: download_file_with_aria2_def Let_def str_simps demo_cfg_def fresh_state_def
        log_def classify_stdout_def lower_def)
  have bad: "\<not> fst (download_file_with_aria2 ?bad ''http://h/B/x.iso'' ''/m''
      (aria2_options demo_cfg) (error_urls_file demo_cfg) fresh_state)"
    by (simp add: download_file_with_aria2_def Let_def str_simps)
  have a: "links_loop 1 ?ok demo_cfg ''http://h/B/'' ''/m'' [Some ''x.iso''] fresh_state =
       Some \<lparr>visited_urls = [''http://h/B/x.iso''], visited_directories = {},
             fs = [''visited_urls.json'' \<mapsto>
                     Json_object [(''visited_urls'', [''http://h/B/x.iso''])]
                       [(''last_updated'', ''2024-01-01T00:00:00'')]],
             dirs = {}, clock = 1,
             trace = [Attempt ''http://h/B/x.iso'',
                      Spawn [''aria2c'', ''-c'', ''--dir'', ''/m'', ''-x'', ''16'',
                             ''http://h/B/x.iso''],
                      Report (Unrecognised [])]\<rparr>"
    using file_link_success_persisted [OF c [of "\<lambda>u. Client_error" "\<lambda>c. Exited 0 [] []"],
        of 1 "[]"]
    by (simp add: Let_def ok)
       (simp add: save_visited_urls_def now_def set_add_def fresh_state_def demo_env_def
          demo_cfg_def)
  have b: "map_option visited_urls
        (links_loop 1 ?bad demo_cfg ''http://h/B/'' ''/m'' [Some ''x.iso''] fresh_state) = Some []"
    using file_link_success_persisted [OF c [of "\<lambda>u. Client_error" "\<lambda>c. Exited 1 [] []"],
        of 1 "[]"] bad
    by (simp add: Let_def fresh_state_def)
  show ?thesis
    using a b c by blast
qed

lemma cyclic_urljoin:
  "std_urljoin ''http://h/B/'' ''./'' = ''http://h/B/''"
  "std_urljoin ''http://h/B/a/'' ''/B/a/'' = ''http://h/B/a/''"
  "std_urljoin ''http://h/B/a/'' ''x.iso'' = ''http://h/B/a/x.iso''"
  "std_scheme ''/B/a/'' = []"
  by (simp_all add: urljoin_simps scheme_simps)

lemma cyclic_run:
  "sync_mirror 3 (demo_env cyclic_pages (\<lambda>c. Exited 0 [] [])) demo_cfg ''http://h/B/'' ''/m''
     fresh_state =
   Some \<lparr>visited_urls = [''http://h/B/a/x.iso''],
         visited_directories = {''http://h/B/a'', ''http://h/B''},
         fs = [''visited_urls.json'' \<mapsto>
                 Json_object [(''visited_urls'', [''http://h/B/a/x.iso''])]
                   [(''last_updated'', ''2024-01-01T00:00:00'')]],
         dirs = {''/m/a'', ''/m''}, clock = 1,
         trace = [Makedirs ''/m'', Get_index ''http://h/B/'', Makedirs ''/m/a'',
                  Get_index ''http://h/B/a/'', Attempt ''http://h/B/a/x.iso'',
                  Spawn [''aria2c'', ''-c'', ''--dir'', ''/m/a'', ''-x'', ''16'',
                         ''http://h/B/a/x.iso''],
                  Report (Unrecognised [])]\<rparr>"
  by (simp add: numeral_3_eq_3 run_simps std_scheme_examples std_urljoin_examples
      cyclic_urljoin cyclic_pages_def demo_cfg_def fresh_state_def str_simps)

theorem crawl_terminates_witness:
  "finite {u. is_page (index_page (demo_env cyclic_pages (\<lambda>c. Exited 0 [] [])) u)}
   \<and> (\<exists>st'. sync_mirror 3 (demo_env cyclic_pages (\<lambda>c. Exited 0 [] [])) demo_cfg
              ''http://h/B/'' ''/m'' fresh_state = Some st'
            \<and> rstrip_slash ''http://h/B/'' \<in> visited_directories st')
   \<and> map_option visited_directories
        (sync_mirror 3 (demo_env cyclic_pages (\<lambda>c. Exited 0 [] [])) demo_cfg
           ''http://h/B/'' ''/m'' fresh_state) = Some {''http://h/B/a'', ''http://h/B''}"
proof -
  let ?E = "demo_env cyclic_pages (\<lambda>c. Exited 0 [] [])"
  have sub: "{u. is_page (index_page ?E u)} \<subseteq> {''http://h/B/'', ''http://h/B/a/''}"
    by (auto simp add: is_page_def cyclic_pages_def split: if_splits)
  have fin: "finite {u. is_page (index_page ?E u)}"
    by (rule finite_subset [OF sub]) simp
  have "card {u. is_page (index_page ?E u)} \<le> card {''http://h/B/'', ''http://h/B/a/''}"
    by (rule card_mono [OF _ sub]) simp
  then have c: "card {u. is_page (index_page ?E u)} < 3"
    by simp
  note t = crawl_terminates [OF fin, of fresh_state demo_cfg "''http://h/B/''" "''/m''"]
  have "card (pending ?E fresh_state) < 3"
    using t c by linarith
  then have "\<exists>st'. sync_mirror 3 ?E demo_cfg ''http://h/B/'' ''/m'' fresh_state = Some st'
            \<and> rstrip_slash ''http://h/B/'' \<in> visited_directories st'"
    using t by blast
  then show ?thesis
    using fin by (simp add: cyclic_run)
qed


section \<open>Scope\<close>

lemma classify_enter_scope:
  "classify_link env cfg u p st link = Enter_directory u' p' \<Longrightarrow>
   startswith u' (base_sync_url cfg)"
  by (auto simp add: classify_link_def Let_def split: option.splits if_splits)

lemma classify_download_scope:
  "classify_link env cfg u p st link = Download u' \<Longrightarrow> startswith u' (base_sync_url cfg)"
  by (auto simp add: classify_link_def Let_def split: option.splits if_splits)

lemma classify_out_of_scope:
  "classify_link env cfg u p st link = Out_of_scope u' \<Longrightarrow>
   \<not> startswith u' (base_sync_url cfg)"
  by (auto simp add: classify_link_def Let_def split: option.splits if_splits)

lemma aria2_scope:
  assumes "startswith u base" and "list_all (in_scope base) (trace st)"
  shows "list_all (in_scope base) (trace (snd (download_file_with_aria2 env u d opts f st)))"
  using assms
  by (auto simp add: download_file_with_aria2_def Let_def split: proc_result.splits)

lemma transfer_file_scope:
  assumes "startswith u base" and "list_all (in_scope base) (trace st)"
  shows "list_all (in_scope base) (trace (transfer_file env cfg p u st))"
proof -
  obtain b st1 where r: "download_file_with_aria2 env u p (aria2_options cfg)
      (error_urls_file cfg) st = (b, st1)"
    by (cases "download_file_with_aria2 env u p (aria2_options cfg) (error_urls_file cfg) st")
  have "list_all (in_scope base) (trace st1)"
    using aria2_scope [OF assms, of env p "aria2_options cfg" "error_urls_file cfg"]
    by (simp add: r)
  then show ?thesis
    by (simp add: transfer_file_def r)
qed

lemma entered_scope:
  "startswith u base \<Longrightarrow> list_all (in_scope base) (trace st) \<Longrightarrow>
   list_all (in_scope base) (trace (entered u p st))"
  by (simp add: entered_def)

lemma crawl_scope:
  "\<forall>st'. sync_mirror n env cfg u p st = Some st' \<longrightarrow> startswith u (base_sync_url cfg) \<longrightarrow>
      list_all (in_scope (base_sync_url cfg)) (trace st) \<longrightarrow>
      list_all (in_scope (base_sync_url cfg)) (trace st')"
  "\<forall>st'. links_loop n env cfg u p links st = Some st' \<longrightarrow>
      list_all (in_scope (base_sync_url cfg)) (trace st) \<longrightarrow>
      list_all (in_scope (base_sync_url cfg)) (trace st')"
proof (induction n env cfg u p st and n env cfg u p links st rule: sync_mirror_links_loop.induct)
  case (1 env cfg current_url local_path st)
  then show ?case by simp
next
  case (2 n env cfg current_url local_path st)
  show ?case
  proof (intro allI impI)
    fix st'
    assume r: "sync_mirror (Suc n) env cfg current_url local_path st = Some st'"
      and b: "startswith current_url (base_sync_url cfg)"
      and t: "list_all (in_scope (base_sync_url cfg)) (trace st)"
    have e: "list_all (in_scope (base_sync_url cfg)) (trace (entered current_url local_path st))"
      using b t by (rule entered_scope)
    show "list_all (in_scope (base_sync_url cfg)) (trace st')"
    proof (cases "rstrip_slash current_url \<in> visited_directories st")
      case True
      with r t show ?thesis by (simp add: sync_mirror_Suc)
    next
      case nv: False
      show ?thesis
      proof (cases "rstrip_slash current_url \<in> set (visited_urls st)")
        case True
        with r nv t show ?thesis by (auto simp add: sync_mirror_Suc)
      next
        case nu: False
        show ?thesis
        proof (cases "index_page env current_url")
          case Client_error
          with r nv nu e show ?thesis by (auto simp add: sync_mirror_Suc)
        next
          case Other_error
          with r nv nu e show ?thesis by (auto simp add: sync_mirror_Suc)
        next
          case (Page links)
          show ?thesis
          proof (cases "links = []")
            case True
            with r nv nu Page e show ?thesis by (auto simp add: sync_mirror_Suc)
          next
            case False
            with r nv nu Page
            have l: "links_loop n env cfg current_url local_path links
                       (entered current_url local_path st) = Some st'"
              by (simp add: sync_mirror_Suc)
            show ?thesis
              using "2.IH" [OF refl nv refl _ refl Page False] nu l e
              by (simp add: entered_def)
          qed
        qed
      qed
    qed
  qed
next
  case (3 n env cfg current_url local_path st)
  then show ?case by simp
next
  case (4 n env cfg current_url local_path link links st)
  show ?case
  proof (intro allI impI)
    fix st'
    assume r: "links_loop n env cfg current_url local_path (link # links) st = Some st'"
      and t: "list_all (in_scope (base_sync_url cfg)) (trace st)"
    show "list_all (in_scope (base_sync_url cfg)) (trace st')"
    proof (cases "classify_link env cfg current_url local_path st link")
      case Discard
      with r t "4.IH"(1) show ?thesis by simp
    next
      case (Out_of_scope x2)
      with r t "4.IH"(2) show ?thesis by simp
    next
      case Self_link
      with r t "4.IH"(3) show ?thesis by simp
    next
      case (Enter_directory u' p')
      with r obtain st1 where s: "sync_mirror n env cfg u' p' st = Some st1"
        and l: "links_loop n env cfg current_url local_path links st1 = Some st'"
        by (auto split: option.splits)
      have "list_all (in_scope (base_sync_url cfg)) (trace st1)"
        using "4.IH"(4) [OF Enter_directory] s t classify_enter_scope [OF Enter_directory]
        by simp
      then show ?thesis
        using "4.IH"(5) [OF Enter_directory s] l by simp
    next
      case (Seen_directory x5)
      with r t "4.IH"(6) show ?thesis by simp
    next
      case (Download u')
      with r have l: "links_loop n env cfg current_url local_path links
          (transfer_file env cfg local_path u' st) = Some st'"
        by simp
      have "list_all (in_scope (base_sync_url cfg))
              (trace (transfer_file env cfg local_path u' st))"
        using classify_download_scope [OF Download] t by (rule transfer_file_scope)
      then show ?thesis
        using "4.IH"(7) [OF Download] l by simp
    next
      case (Seen_file x7)
      with r t "4.IH"(8) show ?thesis by simp
    qed
  qed
qed

lemma target_base_url_slash: "endswith (target_base_url b) ''/''"
  by (simp add: target_base_url_def endswith_def)

lemma async_main_scope:
  assumes "async_main fuel env base_url root vf ef opts st0 = Some (status, st')"
    and "list_all (in_scope (target_base_url base_url)) (trace st0)"
  shows "list_all (in_scope (target_base_url base_url)) (trace st')"
proof (cases "aria2c_installed env")
  case False
  with assms show ?thesis by (simp add: async_main_def)
next
  case True
  show ?thesis
  proof (cases "load_visited_urls st0 vf")
    case (Inl e)
    with assms True show ?thesis by (simp add: async_main_def)
  next
    case (Inr visited)
    let ?cfg = "\<lparr>base_sync_url = target_base_url base_url, aria2_options = opts,
                 visited_urls_file = vf, error_urls_file = ef\<rparr>"
    let ?st = "st0\<lparr>visited_urls := visited, visited_directories := {}\<rparr>"
    from assms(1) True Inr obtain st1 where
      s: "sync_mirror fuel env ?cfg (target_base_url base_url) root ?st = Some st1"
      and e: "st' = save_visited_urls env vf st1"
      by (auto simp add: async_main_def Let_def split: option.splits)
    have "list_all (in_scope (base_sync_url ?cfg)) (trace st1)"
      using crawl_scope(1) [of fuel env ?cfg "target_base_url base_url" root ?st] s assms(2)
      by (simp add: startswith_def)
    then show ?thesis
      by (simp add: e)
  qed
qed

text \<open>
  Claim C3. A link is recursed into or handed to the dispatcher only when its resolved
  URL starts with the base prefix; a resolved link that does not start with it is
  skipped without effect; in a whole run every index request, dispatcher call,
  subprocess and direct fetch concerns a URL under the base prefix; and that prefix is
  the starting URL with a slash at its end.
\<close>
theorem scope_containment:
  "(\<forall>u' p'. classify_link env cfg u p st link = Enter_directory u' p'
        \<longrightarrow> startswith u' (base_sync_url cfg))
   \<and> (\<forall>u'. classify_link env cfg u p st link = Download u'
        \<longrightarrow> startswith u' (base_sync_url cfg))
   \<and> (\<forall>href. link = Some href
         \<and> classify_link env cfg u p st link \<noteq> Discard
         \<and> \<not> startswith (urljoin env u href) (base_sync_url cfg)
        \<longrightarrow> classify_link env cfg u p st link = Out_of_scope (urljoin env u href)
            \<and> links_loop n env cfg u p (link # links) st = links_loop n env cfg u p links st)
   \<and> (\<forall>status st'.
         async_main fuel env base_url root vf ef opts st0 = Some (status, st')
         \<and> list_all (in_scope (target_base_url base_url)) (trace st0)
        \<longrightarrow> list_all (in_scope (target_base_url base_url)) (trace st'))
   \<and> endswith (target_base_url base_url) ''/''"
proof (intro conjI allI impI)
  fix u' p'
  assume "classify_link env cfg u p st link = Enter_directory u' p'"
  then show "startswith u' (base_sync_url cfg)" by (rule classify_enter_scope)
next
  fix u'
  assume "classify_link env cfg u p st link = Download u'"
  then show "startswith u' (base_sync_url cfg)" by (rule classify_download_scope)
next
  fix href
  assume a: "link = Some href \<and> classify_link env cfg u p st link \<noteq> Discard
         \<and> \<not> startswith (urljoin env u href) (base_sync_url cfg)"
  then show c: "classify_link env cfg u p st link = Out_of_scope (urljoin env u href)"
    by (auto simp add: classify_link_def Let_def split: if_splits)
  then show "links_loop n env cfg u p (link # links) st = links_loop n env cfg u p links st"
    by simp
next
  fix status st'
  assume "async_main fuel env base_url root vf ef opts st0 = Some (status, st')
         \<and> list_all (in_scope (target_base_url base_url)) (trace st0)"
  then show "list_all (in_scope (target_base_url base_url)) (trace st')"
    using async_main_scope by blast
next
  show "endswith (target_base_url base_url) ''/''"
    by (rule target_base_url_slash)
qed


section \<open>A run with a link that leaves the base\<close>

lemma scope_examples:
  "std_urljoin ''http://h/B/'' ''/C/'' = ''http://h/C/''"
  "std_scheme ''/C/'' = []"
  "target_base_url ''http://h/B'' = ''http://h/B/''"
  by (simp_all add: urljoin_simps scheme_simps target_base_url_def endswith_def suffix_to_prefix)

lemma scope_run:
  "async_main 2 (demo_env scope_pages (\<lambda>c. Exited 0 [] [])) ''http://h/B'' ''/m''
     ''visited_urls.json'' ''error_urls.json'' [''-x'', ''16''] fresh_state =
   Some (Completed,
     \<lparr>visited_urls = [''http://h/B/x.iso''], visited_directories = {''http://h/B''},
      fs = [''visited_urls.json'' \<mapsto>
              Json_object [(''visited_urls'', [''http://h/B/x.iso''])]
                [(''last_updated'', ''2024-01-01T00:00:00'')]],
      dirs = {''/m''}, clock = 2,
      trace = [Makedirs ''/m'', Get_index ''http://h/B/'', Attempt ''http://h/B/x.iso'',
               Spawn [''aria2c'', ''-c'', ''--dir'', ''/m'', ''-x'', ''16'',
                      ''http://h/B/x.iso''],
               Report (Unrecognised [])]\<rparr>)"
  by (simp add: async_main_def load_visited_urls_def numeral_2_eq_2 run_simps
      std_scheme_examples std_urljoin_examples scope_examples
      scope_pages_def fresh_state_def str_simps)

theorem scope_containment_witness:
  "classify_link (demo_env scope_pages (\<lambda>c. Exited 0 [] [])) demo_cfg ''http://h/B/'' ''/m''
      fresh_state (Some ''/C/'') = Out_of_scope ''http://h/C/''
   \<and> links_loop (Suc 0) (demo_env scope_pages (\<lambda>c. Exited 0 [] [])) demo_cfg ''http://h/B/'' ''/m''
        [Some ''/C/''] fresh_state = Some fresh_state
   \<and> (\<exists>status st'.
         async_main 2 (demo_env scope_pages (\<lambda>c. Exited 0 [] [])) ''http://h/B'' ''/m''
           ''visited_urls.json'' ''error_urls.json'' [''-x'', ''16''] fresh_state =
           Some (status, st')
         \<and> attempts (trace st') = [''http://h/B/x.iso'']
         \<and> list_all (in_scope ''http://h/B/'') (trace st'))"
proof -
  let ?E = "demo_env scope_pages (\<lambda>c. Exited 0 [] [])"
  have uj: "urljoin ?E ''http://h/B/'' ''/C/'' = ''http://h/C/''"
    by (simp add: scope_examples)
  have nd: "classify_link ?E demo_cfg ''http://h/B/'' ''/m'' fresh_state (Some ''/C/'') \<noteq> Discard"
    by (simp add: classify_link_def scope_examples startswith_def Let_def)
  have ns: "\<not> startswith (urljoin ?E ''http://h/B/'' ''/C/'') (base_sync_url demo_cfg)"
    by (simp add: scope_examples startswith_def demo_cfg_def)
  note t = scope_containment [of ?E demo_cfg "''http://h/B/''" "''/m''" fresh_state
      "Some ''/C/''" "Suc 0" "[]" 2 "''http://h/B''" "''/m''" "''visited_urls.json''"
      "''error_urls.json''" "[''-x'', ''16'']" fresh_state]
  note t3 = t [THEN conjunct2, THEN conjunct2, THEN conjunct1, rule_format, of "''/C/''"]
  note t4 = t [THEN conjunct2, THEN conjunct2, THEN conjunct2, THEN conjunct1, rule_format]
  have ab: "classify_link ?E demo_cfg ''http://h/B/'' ''/m'' fresh_state (Some ''/C/'')
             = Out_of_scope (urljoin ?E ''http://h/B/'' ''/C/'')
      \<and> links_loop (Suc 0) ?E demo_cfg ''http://h/B/'' ''/m'' [Some ''/C/''] fresh_state
             = links_loop (Suc 0) ?E demo_cfg ''http://h/B/'' ''/m'' [] fresh_state"
    by (rule t3) (intro conjI refl nd ns)
  have a: "classify_link ?E demo_cfg ''http://h/B/'' ''/m'' fresh_state (Some ''/C/'')
             = Out_of_scope ''http://h/C/''"
    using ab by (simp only: uj)
  have b: "links_loop (Suc 0) ?E demo_cfg ''http://h/B/'' ''/m'' [Some ''/C/''] fresh_state
             = Some fresh_state"
    using ab [THEN conjunct2] by (simp only: links_loop.simps(1))
  have i: "list_all (in_scope (target_base_url ''http://h/B'')) (trace fresh_state)"
    by (simp add: fresh_state_def)
  obtain st' where r: "async_main 2 ?E ''http://h/B'' ''/m''
           ''visited_urls.json'' ''error_urls.json'' [''-x'', ''16''] fresh_state =
           Some (Completed, st')"
    and at: "attempts (trace st') = [''http://h/B/x.iso'']"
    by (simp add: scope_run)
  have "list_all (in_scope (target_base_url ''http://h/B'')) (trace st')"
    by (rule t4 [OF conjI [OF r i]])
  then have c: "list_all (in_scope ''http://h/B/'') (trace st')"
    by (simp only: scope_examples)
  have "async_main 2 ?E ''http://h/B'' ''/m''
           ''visited_urls.json'' ''error_urls.json'' [''-x'', ''16''] fresh_state =
           Some (Completed, st')
         \<and> attempts (trace st') = [''http://h/B/x.iso'']
         \<and> list_all (in_scope ''http://h/B/'') (trace st')"
    by (intro conjI r at c)
  then have d: "\<exists>status st'.
         async_main 2 ?E ''http://h/B'' ''/m''
           ''visited_urls.json'' ''error_urls.json'' [''-x'', ''16''] fresh_state =
           Some (status, st')
         \<and> attempts (trace st') = [''http://h/B/x.iso'']
         \<and> list_all (in_scope ''http://h/B/'') (trace st')"
    by (intro exI)
  show ?thesis
    by (intro conjI a b d)
qed


section \<open>Local directories\<close>

lemma trace_entered: "trace (entered u p st) = trace st @ [Makedirs p, Get_index u]"
  by (simp add: entered_def)

lemma dirs_entered: "dirs (entered u p st) = insert p (dirs st)"
  by (simp add: entered_def)

lemma sync_mirror_passes:
  assumes "rstrip_slash u \<notin> visited_directories st"
    and "rstrip_slash u \<notin> set (visited_urls st)"
    and "sync_mirror n env cfg u p st = Some st'"
  shows "grows (entered u p st) st'"
proof (cases n)
  case 0
  with assms(3) show ?thesis by simp
next
  case (Suc m)
  show ?thesis
    using assms Suc crawl_grows(2) [of m env cfg u p _ "entered u p st"]
    by (auto simp add: sync_mirror_Suc split: fetch_result.splits if_splits)
qed

text \<open>
  Claim C10. When a directory URL passes both entry guards, the local directory is
  created and then the index page is requested, in that order and before anything
  else; the directory exists in every state the call returns, also when the request
  fails or the page has no links; the call does return when the server answers
  finitely many directory URLs. When either guard stops the call, no directory is
  created and nothing is done outside the program.
\<close>
theorem local_directory_before_fetch:
  "(rstrip_slash u \<notin> visited_directories st \<and> rstrip_slash u \<notin> set (visited_urls st) \<longrightarrow>
      (\<forall>n st'. sync_mirror n env cfg u p st = Some st' \<longrightarrow>
          p \<in> dirs st' \<and> prefix (trace st @ [Makedirs p, Get_index u]) (trace st'))
      \<and> (\<forall>n. index_page env u = Client_error \<or> index_page env u = Other_error
               \<or> index_page env u = Page [] \<longrightarrow>
             sync_mirror (Suc n) env cfg u p st = Some (entered u p st))
      \<and> p \<in> dirs (entered u p st)
      \<and> (finite {v. is_page (index_page env v)} \<longrightarrow>
            (\<exists>st'. sync_mirror (Suc (card (pending env st))) env cfg u p st = Some st')))
   \<and> (rstrip_slash u \<in> visited_directories st \<or> rstrip_slash u \<in> set (visited_urls st) \<longrightarrow>
        (\<forall>n. \<exists>st'. sync_mirror (Suc n) env cfg u p st = Some st'
             \<and> dirs st' = dirs st \<and> trace st' = trace st \<and> fs st' = fs st))"
proof (intro conjI impI allI)
  fix n st'
  assume g: "rstrip_slash u \<notin> visited_directories st \<and> rstrip_slash u \<notin> set (visited_urls st)"
    and r: "sync_mirror n env cfg u p st = Some st'"
  have gr: "grows (entered u p st) st'"
    using g r sync_mirror_passes by blast
  show "p \<in> dirs st'"
    using gr by (auto simp add: grows_def dirs_entered)
  show "prefix (trace st @ [Makedirs p, Get_index u]) (trace st')"
    using gr by (simp add: grows_def trace_entered)
next
  fix n
  assume g: "rstrip_slash u \<notin> visited_directories st \<and> rstrip_slash u \<notin> set (visited_urls st)"
    and f: "index_page env u = Client_error \<or> index_page env u = Other_error
               \<or> index_page env u = Page []"
  show "sync_mirror (Suc n) env cfg u p st = Some (entered u p st)"
    using g f by (auto simp add: sync_mirror_Suc)
next
  show "p \<in> dirs (entered u p st)"
    by (simp add: dirs_entered)
next
  assume "finite {v. is_page (index_page env v)}"
  then show "\<exists>st'. sync_mirror (Suc (card (pending env st))) env cfg u p st = Some st'"
    by (rule sync_total) simp
next
  fix n
  assume "rstrip_slash u \<in> visited_directories st \<or> rstrip_slash u \<in> set (visited_urls st)"
  then show "\<exists>st'. sync_mirror (Suc n) env cfg u p st = Some st'
             \<and> dirs st' = dirs st \<and> trace st' = trace st \<and> fs st' = fs st"
    by (auto simp add: sync_mirror_Suc)
qed

theorem local_directory_before_fetch_witness:
  "sync_mirror (Suc 0) (demo_env (\<lambda>u. Client_error) (\<lambda>c. Launch_error)) demo_cfg
      ''http://h/B/'' ''/m'' fresh_state =
     Some \<lparr>visited_urls = [], visited_directories = {''http://h/B''}, fs = Map.empty,
           dirs = {''/m''}, clock = 0, trace = [Makedirs ''/m'', Get_index ''http://h/B/'']\<rparr>
   \<and> (\<exists>st'. sync_mirror (Suc 0) (demo_env (\<lambda>u. Client_error) (\<lambda>c. Launch_error)) demo_cfg
          ''http://h/B/'' ''/m'' (fresh_state\<lparr>visited_urls := [''http://h/B'']\<rparr>) = Some st'
        \<and> dirs st' = dirs (fresh_state\<lparr>visited_urls := [''http://h/B'']\<rparr>)
        \<and> trace st' = trace (fresh_state\<lparr>visited_urls := [''http://h/B'']\<rparr>))"
proof -
  let ?E = "demo_env (\<lambda>u. Client_error) (\<lambda>c. Launch_error)"
  let ?st = "fresh_state\<lparr>visited_urls := [''http://h/B'']\<rparr>"
  have n: "rstrip_slash ''http://h/B/'' = ''http://h/B''"
    by (simp add: str_simps)
  have g: "rstrip_slash ''http://h/B/'' \<notin> visited_directories fresh_state
         \<and> rstrip_slash ''http://h/B/'' \<notin> set (visited_urls fresh_state)"
    by (simp add: fresh_state_def)
  have f: "index_page ?E ''http://h/B/'' = Client_error \<or> index_page ?E ''http://h/B/'' = Other_error
         \<or> index_page ?E ''http://h/B/'' = Page []"
    by simp
  note t1 = local_directory_before_fetch [of "''http://h/B/''" fresh_state ?E demo_cfg "''/m''"]
  have a: "sync_mirror (Suc 0) ?E demo_cfg ''http://h/B/'' ''/m'' fresh_state =
      Some (entered ''http://h/B/'' ''/m'' fresh_state)"
    using t1 g f by blast
  have e: "entered ''http://h/B/'' ''/m'' fresh_state =
      \<lparr>visited_urls = [], visited_directories = {''http://h/B''}, fs = Map.empty,
           dirs = {''/m''}, clock = 0, trace = [Makedirs ''/m'', Get_index ''http://h/B/'']\<rparr>"
    by (simp add: entered_def makedirs_def log_def fresh_state_def n)
  have s: "rstrip_slash ''http://h/B/'' \<in> visited_directories ?st
         \<or> rstrip_slash ''http://h/B/'' \<in> set (visited_urls ?st)"
    by (simp add: n)
  note t2 = local_directory_before_fetch [of "''http://h/B/''" ?st ?E demo_cfg "''/m''"]
  have b: "\<exists>st'. sync_mirror (Suc 0) ?E demo_cfg ''http://h/B/'' ''/m'' ?st = Some st'
        \<and> dirs st' = dirs ?st \<and> trace st' = trace ?st"
    using t2 s by blast
  show ?thesis
    using a b by (simp only: e)
qed


section \<open>A second run follows the first\<close>

lemma attempts_append [simp]: "attempts (xs @ ys) = attempts xs @ attempts ys"
  by (induction xs rule: attempts.induct) simp_all

lemma attempts_prefix: "prefix xs ys \<Longrightarrow> set (attempts xs) \<subseteq> set (attempts ys)"
  by (auto simp add: prefix_def)

lemma grows_attempts:
  "grows st st' \<Longrightarrow> set (attempts (trace st)) \<subseteq> set (attempts (trace st'))"
  by (simp add: grows_def attempts_prefix)

lemma aria2_attempt:
  "u \<in> set (attempts (trace (snd (download_file_with_aria2 env u d opts f st))))"
  by (auto simp add: download_file_with_aria2_def Let_def split: proc_result.splits)

lemma transfer_file_attempt:
  "u \<in> set (attempts (trace (transfer_file env cfg p u st)))"
proof -
  obtain b st1 where r: "download_file_with_aria2 env u p (aria2_options cfg)
      (error_urls_file cfg) st = (b, st1)"
    by (cases "download_file_with_aria2 env u p (aria2_options cfg) (error_urls_file cfg) st")
  have "u \<in> set (attempts (trace st1))"
    using aria2_attempt [of u env p "aria2_options cfg" "error_urls_file cfg" st]
    by (simp add: r)
  then show ?thesis
    by (simp add: transfer_file_def r)
qed

lemma attempts_entered [simp]: "attempts (trace (entered u p st)) = attempts (trace st)"
  by (simp add: entered_def)

lemma classify_replay:
  assumes "replays W st1 st2"
  shows "classify_link env cfg u p st2 link =
           (case classify_link env cfg u p st1 link of
              Download x \<Rightarrow> if x \<in> W then Seen_file x else Download x
            | a \<Rightarrow> a)"
  using assms
  by (cases link) (auto simp add: classify_link_def Let_def replays_def)

lemma loop_sim:
  assumes sync: "\<And>u p st1 st1' st2.
        sync_mirror n env cfg u p st1 = Some st1' \<Longrightarrow>
        set (attempts (trace st1')) \<subseteq> W \<Longrightarrow> replays W st1 st2 \<Longrightarrow>
        \<exists>st2'. sync_mirror n env cfg u p st2 = Some st2' \<and> replays W st1' st2'
              \<and> attempts (trace st2') = attempts (trace st2)"
  shows "links_loop n env cfg u p links st1 = Some st1' \<Longrightarrow>
        set (attempts (trace st1')) \<subseteq> W \<Longrightarrow> replays W st1 st2 \<Longrightarrow>
        \<exists>st2'. links_loop n env cfg u p links st2 = Some st2' \<and> replays W st1' st2'
              \<and> attempts (trace st2') = attempts (trace st2)"
proof (induction links arbitrary: st1 st2)
  case Nil
  then show ?case by simp
next
  case (Cons link links)
  note c2 = classify_replay [OF Cons.prems(3), of env cfg u p link]
  show ?case
  proof (cases "classify_link env cfg u p st1 link")
    case (Enter_directory x y)
    with Cons.prems(1) obtain s1 where s: "sync_mirror n env cfg x y st1 = Some s1"
      and l: "links_loop n env cfg u p links s1 = Some st1'"
      by (auto split: option.splits)
    have "grows s1 st1'"
      using crawl_grows(2) l by blast
    then have "set (attempts (trace s1)) \<subseteq> W"
      using grows_attempts Cons.prems(2) by blast
    then obtain s2 where s2: "sync_mirror n env cfg x y st2 = Some s2"
      and r2: "replays W s1 s2" and a2: "attempts (trace s2) = attempts (trace st2)"
      using sync [OF s _ Cons.prems(3)] by blast
    obtain st2' where "links_loop n env cfg u p links s2 = Some st2'"
      and "replays W st1' st2'" and "attempts (trace st2') = attempts (trace s2)"
      using Cons.IH [OF l Cons.prems(2) r2] by blast
    then show ?thesis
      using c2 Enter_directory s2 a2 by simp
  next
    case (Download x)
    with Cons.prems(1) have l: "links_loop n env cfg u p links
        (transfer_file env cfg p x st1) = Some st1'"
      by simp
    have "grows (transfer_file env cfg p x st1) st1'"
      using crawl_grows(2) l by blast
    then have "x \<in> W"
      using grows_attempts transfer_file_attempt Cons.prems(2) by blast
    then have skip: "classify_link env cfg u p st2 link = Seen_file x"
      using c2 Download by simp
    have "replays W (transfer_file env cfg p x st1) st2"
      using Cons.prems(3) \<open>x \<in> W\<close> transfer_file_visited(1) [of env cfg p x st1]
      by (auto simp add: replays_def)
    then show ?thesis
      using Cons.IH [OF l Cons.prems(2)] skip by simp
  next
    case Discard
    then show ?thesis using Cons c2 by simp
  next
    case (Out_of_scope x)
    then show ?thesis using Cons c2 by simp
  next
    case Self_link
    then show ?thesis using Cons c2 by simp
  next
    case (Seen_directory x)
    then show ?thesis using Cons c2 by simp
  next
    case (Seen_file x)
    then show ?thesis using Cons c2 by simp
  qed
qed

lemma replays_entered:
  "replays W st1 st2 \<Longrightarrow> replays W (entered u p st1) (entered u p st2)"
  by (simp add: replays_def entered_def)

lemma replays_marked:
  "replays W st1 st2 \<Longrightarrow>
   replays W (st1\<lparr>visited_directories := insert x (visited_directories st1)\<rparr>)
             (st2\<lparr>visited_directories := insert x (visited_directories st2)\<rparr>)"
  by (simp add: replays_def)

lemma replays_entered_marked:
  "replays W st1 st2 \<Longrightarrow>
   replays W (entered u p st1)
             (st2\<lparr>visited_directories := insert (rstrip_slash u) (visited_directories st2)\<rparr>)"
  by (simp add: replays_def entered_def)

lemma sync_sim:
  assumes apart: "dirs_apart env W"
  shows "sync_mirror n env cfg u p st1 = Some st1' \<Longrightarrow>
        set (attempts (trace st1')) \<subseteq> W \<Longrightarrow> replays W st1 st2 \<Longrightarrow>
        \<exists>st2'. sync_mirror n env cfg u p st2 = Some st2' \<and> replays W st1' st2'
              \<and> attempts (trace st2') = attempts (trace st2)"
proof (induction n arbitrary: u p st1 st1' st2)
  case 0
  then show ?case by simp
next
  case (Suc n)
  have vd: "visited_directories st2 = visited_directories st1"
    and v2: "set (visited_urls st2) = W" and v1: "set (visited_urls st1) \<subseteq> W"
    using Suc.prems(3) by (simp_all add: replays_def)
  show ?case
  proof (cases "rstrip_slash u \<in> visited_directories st1")
    case True
    then show ?thesis
      using Suc.prems vd by (simp add: sync_mirror_Suc)
  next
    case nv: False
    show ?thesis
    proof (cases "rstrip_slash u \<in> set (visited_urls st1)")
      case True
      then have "rstrip_slash u \<in> set (visited_urls st2)"
        using v1 v2 by blast
      then show ?thesis
        using Suc.prems True nv vd replays_marked [OF Suc.prems(3)]
        by (auto simp add: sync_mirror_Suc)
    next
      case nu: False
      show ?thesis
      proof (cases "\<exists>links. index_page env u = Page links \<and> links \<noteq> []")
        case True
        then obtain links where pg: "index_page env u = Page links" and ne: "links \<noteq> []"
          by blast
        have "rstrip_slash u \<notin> W"
          using apart pg by (simp add: dirs_apart_def is_page_def)
        then have nu2: "rstrip_slash u \<notin> set (visited_urls st2)"
          using v2 by simp
        have l: "links_loop n env cfg u p links (entered u p st1) = Some st1'"
          using Suc.prems(1) nv nu pg ne by (simp add: sync_mirror_Suc)
        have "\<exists>st2'. links_loop n env cfg u p links (entered u p st2) = Some st2'
              \<and> replays W st1' st2'
              \<and> attempts (trace st2') = attempts (trace (entered u p st2))"
          by (rule loop_sim [OF _ l Suc.prems(2) replays_entered [OF Suc.prems(3)]])
             (rule Suc.IH; assumption)
        then obtain st2' where "links_loop n env cfg u p links (entered u p st2) = Some st2'"
          and "replays W st1' st2'"
          and "attempts (trace st2') = attempts (trace (entered u p st2))"
          by blast
        then show ?thesis
          using nv nu2 vd pg ne by (simp add: sync_mirror_Suc)
      next
        case False
        then have e1: "st1' = entered u p st1"
          using Suc.prems(1) nv nu
          by (auto simp add: sync_mirror_Suc split: fetch_result.splits if_splits)
        show ?thesis
        proof (cases "rstrip_slash u \<in> set (visited_urls st2)")
          case True
          then show ?thesis
            using nv vd e1 replays_entered_marked [OF Suc.prems(3)]
            by (simp add: sync_mirror_Suc)
        next
          case nu2: False
          have "sync_mirror (Suc n) env cfg u p st2 = Some (entered u p st2)"
            using False nv nu2 vd
            by (auto simp add: sync_mirror_Suc split: fetch_result.splits)
          then show ?thesis
            using e1 replays_entered [OF Suc.prems(3)] by simp
        qed
      qed
    qed
  qed
qed


section \<open>Idempotence of a run\<close>

lemma load_after_save:
  "writable env f \<Longrightarrow>
   load_visited_urls (save_visited_urls env f st) f = Inr (remdups (visited_urls st))"
  by (simp add: load_visited_urls_def save_visited_urls_def now_def)

lemma async_main_completed:
  assumes "async_main n env base_url root vf ef opts w0 = Some (Completed, w1)"
  shows "\<exists>v0 st1. aria2c_installed env \<and> load_visited_urls w0 vf = Inr v0
     \<and> sync_mirror n env
          \<lparr>base_sync_url = target_base_url base_url, aria2_options = opts,
             visited_urls_file = vf, error_urls_file = ef\<rparr>
          (target_base_url base_url) root
          (w0\<lparr>visited_urls := v0, visited_directories := {}\<rparr>) = Some st1
     \<and> w1 = save_visited_urls env vf st1"
  using assms
  by (auto simp add: async_main_def Let_def split: if_splits sum.splits option.splits)

text \<open>
  Claim C1 (as amended). Suppose a first run completes, every URL it handed to the
  dispatcher is in the Visited Set afterwards, the visited-log file can be written, and
  no directory URL the server answers has its slash-stripped form in that set. Then a
  second run over the same tree, started in the world the first run left (so from the
  persisted Visited Set), completes, hands nothing to the dispatcher and ends with the
  same Visited Set.
\<close>
theorem second_run_downloads_nothing:
  assumes "async_main n env base_url root vf ef opts w0 = Some (Completed, w1)"
    and "set (attempts (trace w1)) \<subseteq> set (visited_urls w1)"
    and "writable env vf"
    and "\<forall>u. is_page (index_page env u) \<longrightarrow> rstrip_slash u \<notin> set (visited_urls w1)"
  shows "\<exists>w2. async_main n env base_url root vf ef opts w1 = Some (Completed, w2)
           \<and> attempts (trace w2) = attempts (trace w1)
           \<and> set (visited_urls w2) = set (visited_urls w1)"
proof -
  let ?cfg = "\<lparr>base_sync_url = target_base_url base_url, aria2_options = opts,
               visited_urls_file = vf, error_urls_file = ef\<rparr>"
  let ?t = "target_base_url base_url"
  obtain v0 st1 where inst: "aria2c_installed env"
    and s1: "sync_mirror n env ?cfg ?t root
               (w0\<lparr>visited_urls := v0, visited_directories := {}\<rparr>) = Some st1"
    and w1: "w1 = save_visited_urls env vf st1"
    using async_main_completed [OF assms(1)] by blast
  let ?W = "set (visited_urls st1)"
  let ?st0 = "w0\<lparr>visited_urls := v0, visited_directories := {}\<rparr>"
  let ?st2 = "w1\<lparr>visited_urls := remdups (visited_urls st1), visited_directories := {}\<rparr>"
  have ld: "load_visited_urls w1 vf = Inr (remdups (visited_urls st1))"
    using assms(3) by (simp add: w1 load_after_save)
  have ap: "dirs_apart env ?W"
    using assms(4) by (simp add: dirs_apart_def w1)
  have at: "set (attempts (trace st1)) \<subseteq> ?W"
    using assms(2) by (simp add: w1)
  have "grows ?st0 st1"
    using crawl_grows(1) s1 by blast
  then have "set v0 \<subseteq> ?W"
    by (simp add: grows_def)
  then have rp: "replays ?W ?st0 ?st2"
    by (simp add: replays_def)
  obtain st2' where s2: "sync_mirror n env ?cfg ?t root ?st2 = Some st2'"
    and r2: "replays ?W st1 st2'"
    and a2: "attempts (trace st2') = attempts (trace ?st2)"
    using sync_sim [OF ap s1 at rp] by blast
  have "async_main n env base_url root vf ef opts w1 =
          Some (Completed, save_visited_urls env vf st2')"
    using inst ld s2 by (simp add: async_main_def Let_def)
  moreover have "attempts (trace (save_visited_urls env vf st2')) = attempts (trace w1)"
    using a2 by simp
  moreover have "set (visited_urls (save_visited_urls env vf st2')) = set (visited_urls w1)"
    using r2 by (simp add: replays_def w1)
  ultimately show ?thesis
    by blast
qed

lemma cyclic_main_run:
  "async_main 3 (demo_env cyclic_pages (\<lambda>c. Exited 0 [] [])) ''http://h/B/'' ''/m''
     ''visited_urls.json'' ''error_urls.json'' [''-x'', ''16''] fresh_state =
   Some (Completed, cyclic_world1)"
  by (simp add: async_main_def load_visited_urls_def numeral_3_eq_3 run_simps
      std_scheme_examples std_urljoin_examples cyclic_urljoin target_base_url_def
      cyclic_pages_def fresh_state_def str_simps cyclic_world1_def)

lemma cex_run1:
  "async_main 3 (demo_env cex_pages (\<lambda>c. Exited 0 [] [])) ''http://h/B/'' ''/m''
     ''visited_urls.json'' ''error_urls.json'' [''-x'', ''16''] fresh_state =
   Some (Completed, cex_world1)"
  by (simp add: async_main_def load_visited_urls_def numeral_3_eq_3 run_simps
      std_scheme_examples std_urljoin_examples target_base_url_def
      cex_pages_def fresh_state_def str_simps cex_world1_def)

lemma cex_run2:
  "map_option (attempts \<circ> trace \<circ> snd)
     (async_main 3 (demo_env cex_pages (\<lambda>c. Exited 0 [] [])) ''http://h/B/'' ''/m''
        ''visited_urls.json'' ''error_urls.json'' [''-x'', ''16''] cex_world1) =
   Some [''http://h/B/a'', ''http://h/B/a/e/z'']"
  by (simp add: async_main_def load_visited_urls_def numeral_3_eq_3 run_simps
      std_scheme_examples std_urljoin_examples target_base_url_def
      cex_pages_def str_simps cex_world1_def)

text \<open>
  Claim C1 as stated fails: here the server has a file \<open>a\<close> beside the directory
  \<open>a/\<close>, and a second link to \<open>a/e\<close> written with two trailing slashes. The first
  run downloads only \<open>a\<close>, successfully; the second run, started from the saved
  Visited Set, skips \<open>a/\<close> because its stripped URL is now in the set, so it reaches
  \<open>a/e//\<close> for the first time and downloads \<open>z\<close>.
\<close>
theorem second_run_counterexample:
  "map_option fst
     (async_main 3 (demo_env cex_pages (\<lambda>c. Exited 0 [] [])) ''http://h/B/'' ''/m''
        ''visited_urls.json'' ''error_urls.json'' [''-x'', ''16''] fresh_state) = Some Completed
   \<and> map_option (attempts \<circ> trace \<circ> snd)
     (async_main 3 (demo_env cex_pages (\<lambda>c. Exited 0 [] [])) ''http://h/B/'' ''/m''
        ''visited_urls.json'' ''error_urls.json'' [''-x'', ''16''] fresh_state) =
       Some [''http://h/B/a'']
   \<and> map_option (visited_urls \<circ> snd)
     (async_main 3 (demo_env cex_pages (\<lambda>c. Exited 0 [] [])) ''http://h/B/'' ''/m''
        ''visited_urls.json'' ''error_urls.json'' [''-x'', ''16''] fresh_state) =
       Some [''http://h/B/a'']
   \<and> map_option (attempts \<circ> trace \<circ> snd)
     (second_run 3 (demo_env cex_pages (\<lambda>c. Exited 0 [] [])) ''http://h/B/'' ''/m''
        ''visited_urls.json'' ''error_urls.json'' [''-x'', ''16'']
        (async_main 3 (demo_env cex_pages (\<lambda>c. Exited 0 [] [])) ''http://h/B/'' ''/m''
           ''visited_urls.json'' ''error_urls.json'' [''-x'', ''16''] fresh_state)) =
       Some [''http://h/B/a'', ''http://h/B/a/e/z'']"
proof -
  have w: "attempts (trace cex_world1) = [''http://h/B/a'']"
    "visited_urls cex_world1 = [''http://h/B/a'']"
    by (simp_all add: cex_world1_def)
  show ?thesis
    using cex_run2 by (simp add: cex_run1 second_run_def w)
qed

theorem second_run_downloads_nothing_witness:
  "async_main 3 (demo_env cyclic_pages (\<lambda>c. Exited 0 [] [])) ''http://h/B/'' ''/m''
     ''visited_urls.json'' ''error_urls.json'' [''-x'', ''16''] fresh_state =
     Some (Completed, cyclic_world1)
   \<and> set (attempts (trace cyclic_world1)) \<subseteq> set (visited_urls cyclic_world1)
   \<and> writable (demo_env cyclic_pages (\<lambda>c. Exited 0 [] [])) ''visited_urls.json''
   \<and> (\<exists>w2. async_main 3 (demo_env cyclic_pages (\<lambda>c. Exited 0 [] [])) ''http://h/B/'' ''/m''
              ''visited_urls.json'' ''error_urls.json'' [''-x'', ''16''] cyclic_world1 =
              Some (Completed, w2)
            \<and> attempts (trace w2) = [''http://h/B/a/x.iso''])"
proof -
  let ?E = "demo_env cyclic_pages (\<lambda>c. Exited 0 [] [])"
  have ok: "set (attempts (trace cyclic_world1)) \<subseteq> set (visited_urls cyclic_world1)"
    by (simp add: cyclic_world1_def)
  have wr: "writable ?E ''visited_urls.json''"
    by simp
  have ap: "\<forall>u. is_page (index_page ?E u) \<longrightarrow> rstrip_slash u \<notin> set (visited_urls cyclic_world1)"
    by (auto simp add: is_page_def cyclic_pages_def cyclic_world1_def str_simps
        split: if_splits)
  have at: "attempts (trace cyclic_world1) = [''http://h/B/a/x.iso'']"
    by (simp add: cyclic_world1_def)
  obtain w2 where "async_main 3 ?E ''http://h/B/'' ''/m''
              ''visited_urls.json'' ''error_urls.json'' [''-x'', ''16''] cyclic_world1 =
              Some (Completed, w2)"
    and "attempts (trace w2) = attempts (trace cyclic_world1)"
    using second_run_downloads_nothing [OF cyclic_main_run ok wr ap] by blast
  then have "\<exists>w2. async_main 3 ?E ''http://h/B/'' ''/m''
              ''visited_urls.json'' ''error_urls.json'' [''-x'', ''16''] cyclic_world1 =
              Some (Completed, w2)
            \<and> attempts (trace w2) = [''http://h/B/a/x.iso'']"
    using at by auto
  then show ?thesis
    using cyclic_main_run ok wr by (intro conjI)
qed

end
